theory Spec2Isabelle
  imports Complex_Main "HOL-Library.AList"
begin

section \<open>Strings\<close>

text \<open>
  Texts and labels are ASCII strings. The JavaScript string methods the program calls are
  written out on characters; a character outside ASCII is left alone by the case mappings
  and is neither a word character nor white space.
\<close>

definition is_upper :: "char \<Rightarrow> bool" where
  "is_upper c = (65 \<le> (of_char c :: nat) \<and> (of_char c :: nat) \<le> 90)"

definition is_lower :: "char \<Rightarrow> bool" where
  "is_lower c = (97 \<le> (of_char c :: nat) \<and> (of_char c :: nat) \<le> 122)"

definition is_digit :: "char \<Rightarrow> bool" where
  "is_digit c = (48 \<le> (of_char c :: nat) \<and> (of_char c :: nat) \<le> 57)"

definition is_space :: "char \<Rightarrow> bool" where
  "is_space c = ((of_char c :: nat) = 32 \<or> (9 \<le> (of_char c :: nat) \<and> (of_char c :: nat) \<le> 13))"

definition lower_char :: "char \<Rightarrow> char" where
  "lower_char c = (if is_upper c then char_of ((of_char c :: nat) + 32) else c)"

definition upper_char :: "char \<Rightarrow> char" where
  "upper_char c = (if is_lower c then char_of ((of_char c :: nat) - 32) else c)"

definition toLowerCase :: "string \<Rightarrow> string" where
  "toLowerCase s = map lower_char s"

definition toUpperCase :: "string \<Rightarrow> string" where
  "toUpperCase s = map upper_char s"

text \<open>\<open>trim\<close>, \<open>charAt(0).toUpperCase() + slice(1).toLowerCase()\<close> and \<open>includes\<close>.\<close>

definition trim :: "string \<Rightarrow> string" where
  "trim s = rev (dropWhile is_space (rev (dropWhile is_space s)))"

definition capitalizeFirst :: "string \<Rightarrow> string" where
  "capitalizeFirst str = (case str of [] \<Rightarrow> [] | c # cs \<Rightarrow> upper_char c # toLowerCase cs)"

fun str_includes :: "string \<Rightarrow> string \<Rightarrow> bool" where
  "str_includes [] sub = (sub = [])"
| "str_includes (c # cs) sub = (take (length sub) (c # cs) = sub \<or> str_includes cs sub)"

section \<open>Regular expressions\<close>

text \<open>
  The patterns of the program use literal characters, the classes \<open>[A-Z]\<close>, \<open>[a-z]\<close>,
  \<open>\w\<close>, \<open>\s\<close> and \<open>\d\<close>, the assertions \<open>\b\<close>, \<open>^\<close> and \<open>$\<close>, sequence,
  alternation, the greedy quantifiers \<open>*\<close>, \<open>+\<close> and \<open>?\<close>, and numbered groups. A group
  that is not numbered is its body.
\<close>

datatype cclass = Upper | Lower | Word | Space | Digit

datatype rx =
    Eps
  | Ch char
  | Cls cclass
  | Bnd
  | Bol
  | Eol
  | Seq rx rx
  | Alt rx rx
  | Star rx
  | Grp nat rx

text \<open>
  \<open>r+\<close> is \<open>r\<close> and then \<open>r*\<close>; \<open>r?\<close> tries \<open>r\<close> before the empty string; a word is the
  sequence of its characters; \<open>a|b|c\<close> tries the alternatives from the left.
\<close>

definition Plus :: "rx \<Rightarrow> rx" where
  "Plus r = Seq r (Star r)"

definition Opt :: "rx \<Rightarrow> rx" where
  "Opt r = Alt r Eps"

definition Lit :: "string \<Rightarrow> rx" where
  "Lit s = foldr (\<lambda>c r. Seq (Ch c) r) s Eps"

definition Alts :: "rx list \<Rightarrow> rx" where
  "Alts rs = (case rs of [] \<Rightarrow> Eps | r # rs' \<Rightarrow> foldl Alt r rs')"

definition Seqs :: "rx list \<Rightarrow> rx" where
  "Seqs rs = foldr Seq rs Eps"

text \<open>
  Under the flag \<open>i\<close> a character and a pattern character agree when their upper-case
  forms agree, and a class holds a character when it holds one of its two case forms.
\<close>

definition is_word :: "char \<Rightarrow> bool" where
  "is_word c = (is_upper c \<or> is_lower c \<or> is_digit c \<or> c = CHR ''_'')"

fun in_class :: "cclass \<Rightarrow> char \<Rightarrow> bool" where
  "in_class Upper c = is_upper c"
| "in_class Lower c = is_lower c"
| "in_class Word c = is_word c"
| "in_class Space c = is_space c"
| "in_class Digit c = is_digit c"

definition cls_match :: "bool \<Rightarrow> cclass \<Rightarrow> char \<Rightarrow> bool" where
  "cls_match ci k c =
     (in_class k c \<or> (ci \<and> (in_class k (lower_char c) \<or> in_class k (upper_char c))))"

definition ch_match :: "bool \<Rightarrow> char \<Rightarrow> char \<Rightarrow> bool" where
  "ch_match ci a c = (a = c \<or> (ci \<and> upper_char a = upper_char c))"

text \<open>
  A state of the matcher: the text read so far, last character first, the text still to
  read, and the groups captured so far, the latest capture of a group first.
\<close>

type_synonym mstate = "string \<times> string \<times> (nat \<times> string) list"

definition step_if :: "(char \<Rightarrow> bool) \<Rightarrow> mstate \<Rightarrow> mstate list" where
  "step_if P st =
     (case st of (p, x, caps) \<Rightarrow>
        (case x of [] \<Rightarrow> [] | c # cs \<Rightarrow> if P c then [(c # p, cs, caps)] else []))"

text \<open>\<open>\b\<close>: exactly one of the characters before and after the position is a word character.\<close>

definition at_boundary :: "mstate \<Rightarrow> bool" where
  "at_boundary st =
     (case st of (p, x, caps) \<Rightarrow>
        ((case p of [] \<Rightarrow> False | c # _ \<Rightarrow> is_word c) \<noteq> (case x of [] \<Rightarrow> False | c # _ \<Rightarrow> is_word c)))"

definition rest_len :: "mstate \<Rightarrow> nat" where
  "rest_len st = length (fst (snd st))"

text \<open>
  \<open>r*\<close> prefers one more round of \<open>r\<close> to stopping, and a round that reads nothing is
  given up. Every round kept reads a character, so the rounds are at most as many as the
  characters left, which is the first argument.
\<close>

fun star_iter :: "nat \<Rightarrow> (mstate \<Rightarrow> mstate list) \<Rightarrow> mstate \<Rightarrow> mstate list" where
  "star_iter 0 f st = [st]"
| "star_iter (Suc n) f st =
     concat (map (star_iter n f) (filter (\<lambda>st'. rest_len st' < rest_len st) (f st))) @ [st]"

definition capture :: "nat \<Rightarrow> mstate \<Rightarrow> mstate \<Rightarrow> mstate" where
  "capture i st st' =
     (case st' of (p', x', caps') \<Rightarrow>
        (p', x', (i, rev (take (length p' - length (fst st)) p')) # caps'))"

text \<open>
  The matcher gives every way of matching the pattern at the position of the state, in
  the order in which a backtracking matcher tries them: the first is the match it reports.
\<close>

primrec rmatch :: "bool \<Rightarrow> rx \<Rightarrow> mstate \<Rightarrow> mstate list" where
  "rmatch ci Eps st = [st]"
| "rmatch ci (Ch a) st = step_if (ch_match ci a) st"
| "rmatch ci (Cls k) st = step_if (cls_match ci k) st"
| "rmatch ci Bnd st = (if at_boundary st then [st] else [])"
| "rmatch ci Bol st = (if fst st = [] then [st] else [])"
| "rmatch ci Eol st = (if fst (snd st) = [] then [st] else [])"
| "rmatch ci (Seq a b) st = concat (map (rmatch ci b) (rmatch ci a st))"
| "rmatch ci (Alt a b) st = rmatch ci a st @ rmatch ci b st"
| "rmatch ci (Star a) st = star_iter (rest_len st) (rmatch ci a) st"
| "rmatch ci (Grp i a) st = map (capture i st) (rmatch ci a st)"

text \<open>
  What \<open>exec\<close> returns: the text matched, the groups, and the position after the match
  (the text before it, reversed, and the text after it).
\<close>

record found =
  whole :: string
  groups :: "(nat \<times> string) list"
  after_prev :: string
  after_rest :: string

definition mk_found :: "string \<Rightarrow> mstate \<Rightarrow> found" where
  "mk_found p st =
     (case st of (p', x', caps) \<Rightarrow>
        \<lparr>whole = rev (take (length p' - length p) p'), groups = caps, after_prev = p', after_rest = x'\<rparr>)"

text \<open>The first match at or after a position; the end of the text is a position too.\<close>

fun search :: "bool \<Rightarrow> rx \<Rightarrow> string \<Rightarrow> string \<Rightarrow> found option" where
  "search ci r p [] = (case rmatch ci r (p, [], []) of [] \<Rightarrow> None | st # _ \<Rightarrow> Some (mk_found p st))"
| "search ci r p (c # cs) =
     (case rmatch ci r (p, c # cs, []) of
        [] \<Rightarrow> search ci r (c # p) cs
      | st # _ \<Rightarrow> Some (mk_found p st))"

text \<open>
  \<open>while ((match = pattern.exec(text)) !== null)\<close> for a pattern with the flag \<open>g\<close>:
  every call searches from where the last match ended. After an empty match the next call
  starts at the same place and finds the same match, so the loop does not end: the result
  is \<open>None\<close>. Otherwise it is the list of the matches, in the order of the rounds.
\<close>

function exec_loop :: "bool \<Rightarrow> rx \<Rightarrow> string \<Rightarrow> string \<Rightarrow> found list option" where
  "exec_loop ci r p x =
     (case search ci r p x of
        None \<Rightarrow> Some []
      | Some f \<Rightarrow>
          if whole f \<noteq> [] \<and> length (after_rest f) < length x
          then (case exec_loop ci r (after_prev f) (after_rest f) of
                  None \<Rightarrow> None
                | Some fs \<Rightarrow> Some (f # fs))
          else None)"
  by pat_completeness auto
termination
  by (relation "measure (\<lambda>(ci, r, p, x). length x)") auto

text \<open>\<open>match[i]\<close>, \<open>None\<close> for a group that took no part in the match.\<close>

definition match_group :: "nat \<Rightarrow> found \<Rightarrow> string option" where
  "match_group i f = map_of (groups f) i"

text \<open>
  \<open>text.match(pattern)\<close> for a pattern with the flag \<open>g\<close>: the texts of all matches. After
  an empty match the search goes on one character further.
\<close>

function match_all :: "bool \<Rightarrow> rx \<Rightarrow> string \<Rightarrow> string \<Rightarrow> string list" where
  "match_all ci r p x =
     (case search ci r p x of
        None \<Rightarrow> []
      | Some f \<Rightarrow>
          if whole f \<noteq> [] \<and> length (after_rest f) < length x
          then whole f # match_all ci r (after_prev f) (after_rest f)
          else (case after_rest f of
                  [] \<Rightarrow> [whole f]
                | c # cs \<Rightarrow>
                    if length cs < length x then whole f # match_all ci r (c # after_prev f) cs
                    else [whole f]))"
  by pat_completeness auto
termination
  by (relation "measure (\<lambda>(ci, r, p, x). length x)") auto

text \<open>\<open>pattern.test(s)\<close> for a pattern without the flag \<open>g\<close>.\<close>

definition test :: "bool \<Rightarrow> rx \<Rightarrow> string \<Rightarrow> bool" where
  "test ci r s = (search ci r [] s \<noteq> None)"

section \<open>The property graph\<close>

text \<open>
  A property value as the driver passes it to the store and reads it back. \<open>PNull\<close> is
  both JavaScript's \<open>null\<close>/\<open>undefined\<close> and Cypher's \<open>null\<close>: reading a property that
  is not there gives it, and writing it removes the property.
\<close>

datatype pval = PNull | PNum real | PStr string | PBool bool | PTime nat | PList "pval list"

type_synonym props = "(string \<times> pval) list"

definition get_prop :: "props \<Rightarrow> string \<Rightarrow> pval" where
  "get_prop ps k = (case map_of ps k of None \<Rightarrow> PNull | Some v \<Rightarrow> v)"

text \<open>\<open>SET n.k = v\<close>: a null value removes the property.\<close>

definition set_prop :: "string \<Rightarrow> pval \<Rightarrow> props \<Rightarrow> props" where
  "set_prop k v ps = (if v = PNull then AList.delete k ps else AList.update k v ps)"

text \<open>
  \<open>SET n += $map\<close>: every key of the map is written. An object has each key once; in
  the list that stands for it the first binding of a key is the one that counts, as for
  \<open>get_prop\<close>.
\<close>

definition add_props :: "props \<Rightarrow> props \<Rightarrow> props" where
  "add_props m ps = foldr (\<lambda>(k, v). set_prop k v) m ps"

text \<open>
  The store keeps scalars and lists of scalars of one kind; a query that writes anything
  else is rejected.
\<close>

fun scalar_kind :: "pval \<Rightarrow> nat option" where
  "scalar_kind (PNum _) = Some 0"
| "scalar_kind (PStr _) = Some 1"
| "scalar_kind (PBool _) = Some 2"
| "scalar_kind (PTime _) = Some 3"
| "scalar_kind _ = None"

fun storable :: "pval \<Rightarrow> bool" where
  "storable (PList vs) =
     (list_all (\<lambda>v. scalar_kind v \<noteq> None) vs \<and>
      list_all (\<lambda>v. list_all (\<lambda>w. scalar_kind v = scalar_kind w) vs) vs)"
| "storable _ = True"

record node =
  nid :: nat
  ntype :: string
  nprops :: props

record edge =
  eid :: nat
  esrc :: nat
  etgt :: nat
  etype :: string
  eprops :: props

record graph =
  gnodes :: "node list"
  gedges :: "edge list"

text \<open>The store hands out an identifier that is not in use.\<close>

definition fresh_id :: "nat list \<Rightarrow> nat" where
  "fresh_id ids = Suc (fold max ids 0)"

text \<open>
  Entity and relationship types are spliced into the query text, unchecked, as node labels
  and relationship types. For an entity type the model covers the plain identifiers: a
  query with any other entity type is reported as failed. For a relationship type it
  reads the spliced text as the query parser does; see \<open>read_type\<close> below.
\<close>

definition ident_start :: "char \<Rightarrow> bool" where
  "ident_start c = (is_upper c \<or> is_lower c \<or> c = CHR ''_'')"

definition ident_char :: "char \<Rightarrow> bool" where
  "ident_char c = (ident_start c \<or> is_digit c)"

definition cypher_ident :: "string \<Rightarrow> bool" where
  "cypher_ident t = (case t of [] \<Rightarrow> False | c # cs \<Rightarrow> ident_start c \<and> list_all ident_char cs)"

datatype store_error = StoreError

text \<open>
  The relationship type stands in the query text between \<open>(a)-[r:\<close> and \<open>]->(b)\<close>, and
  the parser reads a type name there. When the text given is a name and nothing else, the
  pattern is the one written, \<open>(a)-[r:T]->(b)\<close>. When it is a name followed by
  \<open>]->(v) //\<close>, the pattern read is \<open>(a)-[r:T]->(v)\<close>, and the comment hides the rest of
  the line, the written \<open>]->(b)\<close> included. The model reads these two forms, the second
  with \<open>v\<close> one of the two node variables \<open>a\<close> and \<open>b\<close> of the queries. A query with any
  other text at this place is not read, and the model takes it to be rejected.
\<close>

datatype endpoint = VarA | VarB

datatype spliced = Spliced string endpoint | Unread

definition line_comment :: "string \<Rightarrow> bool" where
  "line_comment s =
     (take 2 (dropWhile (\<lambda>c. c = CHR '' '') s) = ''//''
      \<and> list_all (\<lambda>c. c \<noteq> CHR 0x0A \<and> c \<noteq> CHR 0x0D) s)"

definition read_redirect :: "string \<Rightarrow> endpoint option" where
  "read_redirect s =
     (if take 4 s = '']->(''
      then (case dropWhile ident_char (drop 4 s) of
              [] \<Rightarrow> None
            | c # rest \<Rightarrow>
                if c = CHR '')'' \<and> line_comment rest
                then (let v = takeWhile ident_char (drop 4 s)
                      in if v = ''a'' then Some VarA else if v = ''b'' then Some VarB else None)
                else None)
      else None)"

definition read_type :: "string \<Rightarrow> spliced" where
  "read_type t =
     (let name = takeWhile ident_char t; rest = dropWhile ident_char t
      in if cypher_ident name
         then (if rest = [] then Spliced name VarB
               else (case read_redirect rest of None \<Rightarrow> Unread | Some v \<Rightarrow> Spliced name v))
         else Unread)"

subsection \<open>clearAllData\<close>

text \<open>\<open>MATCH ()-[r]-() DELETE r\<close>, then \<open>MATCH (n) DELETE n\<close>.\<close>

definition clearAllData :: "graph \<Rightarrow> graph" where
  "clearAllData g = (g\<lparr>gedges := []\<rparr>)\<lparr>gnodes := []\<rparr>"

subsection \<open>findEntityByLabelAndType\<close>

text \<open>
  \<open>toLower(x) = toLower($label)\<close> for a stored value \<open>x\<close>: true only for a string that
  agrees after lower-casing; a missing or non-string value never compares true.
\<close>

definition lower_eq :: "pval \<Rightarrow> string \<Rightarrow> bool" where
  "lower_eq v l = (case v of PStr s \<Rightarrow> toLowerCase s = toLowerCase l | _ \<Rightarrow> False)"

definition alias_match :: "pval \<Rightarrow> string \<Rightarrow> bool" where
  "alias_match v l = (case v of PList vs \<Rightarrow> list_ex (\<lambda>a. lower_eq a l) vs | _ \<Rightarrow> False)"

definition entity_matches :: "string \<Rightarrow> string \<Rightarrow> node \<Rightarrow> bool" where
  "entity_matches l t n =
     (ntype n = t \<and>
      (lower_eq (get_prop (nprops n) ''label'') l \<or> alias_match (get_prop (nprops n) ''aliases'') l))"

text \<open>
  \<open>RETURN n LIMIT 1\<close>: the first matching node in the store's scan order, which is the
  order of \<open>gnodes\<close>. A failed query is caught and gives \<open>null\<close>.
\<close>

definition findEntityByLabelAndType :: "graph \<Rightarrow> string \<Rightarrow> string \<Rightarrow> node option" where
  "findEntityByLabelAndType g l t =
     (if cypher_ident t then find (entity_matches l t) (gnodes g) else None)"

subsection \<open>findRelationship\<close>

text \<open>
  \<open>MATCH (a)-[r:T]->(b) WHERE id(a) = $sourceId AND id(b) = $targetId\<close>. When the pattern
  read ends at \<open>a\<close>, the variable \<open>b\<close> of the \<open>WHERE\<close> clause is not defined: the query is
  rejected, which is caught and gives \<open>null\<close>. The relationship returned carries the type
  as it was given.
\<close>

definition findRelationship :: "graph \<Rightarrow> nat \<Rightarrow> nat \<Rightarrow> string \<Rightarrow> edge option" where
  "findRelationship g sourceId targetId t =
     (case read_type t of
        Unread \<Rightarrow> None
      | Spliced name v \<Rightarrow>
          (case v of
             VarA \<Rightarrow> None
           | VarB \<Rightarrow>
               map_option (\<lambda>e. e\<lparr>etype := t\<rparr>)
                 (find (\<lambda>e. etype e = name \<and> esrc e = sourceId \<and> etgt e = targetId) (gedges g))))"

subsection \<open>createRelationshipWithValidation\<close>

text \<open>JavaScript's \<open>x || d\<close> on a property value.\<close>

fun falsy :: "pval \<Rightarrow> bool" where
  "falsy PNull = True"
| "falsy (PNum x) = (x = 0)"
| "falsy (PStr s) = (s = [])"
| "falsy (PBool b) = (\<not> b)"
| "falsy _ = False"

definition js_or :: "pval \<Rightarrow> pval \<Rightarrow> pval" where
  "js_or v d = (if falsy v then d else v)"

text \<open>\<open>MATCH (a:T {label: $l})\<close>: the label property is exactly the given string.\<close>

definition exact_match :: "string \<Rightarrow> string \<Rightarrow> node \<Rightarrow> bool" where
  "exact_match l t n = (ntype n = t \<and> get_prop (nprops n) ''label'' = PStr l)"

text \<open>The properties of a created edge: \<open>r += $properties\<close>, then the time stamp, then the confidence.\<close>

definition new_edge_props :: "props \<Rightarrow> nat \<Rightarrow> props" where
  "new_edge_props properties now =
     set_prop ''confidence'' (js_or (get_prop properties ''confidence'') (PNum 0.8))
       (set_prop ''created_at'' (PTime now) (add_props properties []))"

text \<open>
  \<open>CREATE (a)-[r:T]->(v)\<close>: one edge for every row of the two \<open>MATCH\<close> clauses, numbered
  from the first free identifier, from the node \<open>a\<close> of the row to its node \<open>v\<close>.
\<close>

fun new_edges :: "nat \<Rightarrow> string \<Rightarrow> endpoint \<Rightarrow> props \<Rightarrow> (node \<times> node) list \<Rightarrow> edge list" where
  "new_edges i t v ps [] = []"
| "new_edges i t v ps ((a, b) # rows) =
     \<lparr>eid = i, esrc = nid a, etgt = (case v of VarA \<Rightarrow> nid a | VarB \<Rightarrow> nid b), etype = t, eprops = ps\<rparr>
     # new_edges (Suc i) t v ps rows"

definition create_rows :: "graph \<Rightarrow> string \<Rightarrow> string \<Rightarrow> string \<Rightarrow> string \<Rightarrow> (node \<times> node) list" where
  "create_rows g sourceLabel targetLabel sourceType targetType =
     concat (map (\<lambda>a. map (\<lambda>b. (a, b)) (filter (exact_match targetLabel targetType) (gnodes g)))
                 (filter (exact_match sourceLabel sourceType) (gnodes g)))"

text \<open>
  The result is the graph afterwards and the relationship returned, \<open>None\<close> for \<open>null\<close>.
  Every failure of a query is caught and gives \<open>null\<close> with the graph as it was. The
  relationship returned is built from the first row: the identifier and the properties of
  the edge created for it, \<open>id(a)\<close>, \<open>id(b)\<close>, and the type as it was given.
\<close>

definition createRelationshipWithValidation ::
  "graph \<Rightarrow> string \<Rightarrow> string \<Rightarrow> string \<Rightarrow> string \<Rightarrow> string \<Rightarrow> props \<Rightarrow> nat \<Rightarrow> graph \<times> edge option" where
  "createRelationshipWithValidation g sourceLabel targetLabel sourceType targetType relationshipType properties now =
     (case findEntityByLabelAndType g sourceLabel sourceType of
        None \<Rightarrow> (g, None)
      | Some sourceEntity \<Rightarrow>
         (case findEntityByLabelAndType g targetLabel targetType of
            None \<Rightarrow> (g, None)
          | Some targetEntity \<Rightarrow>
             (case findRelationship g (nid sourceEntity) (nid targetEntity) relationshipType of
                Some existingRel \<Rightarrow> (g, Some existingRel)
              | None \<Rightarrow>
                 (case read_type relationshipType of
                    Unread \<Rightarrow> (g, None)
                  | Spliced name w \<Rightarrow>
                      if list_all (\<lambda>(k, v). storable v) properties
                      then
                        (case create_rows g sourceLabel targetLabel sourceType targetType of
                           [] \<Rightarrow> (g, None)
                         | (a, b) # rows \<Rightarrow>
                             (g\<lparr>gedges := gedges g @
                                  new_edges (fresh_id (map eid (gedges g))) name w
                                    (new_edge_props properties now) ((a, b) # rows)\<rparr>,
                              Some \<lparr>eid = fresh_id (map eid (gedges g)), esrc = nid a, etgt = nid b,
                                     etype = relationshipType, eprops = new_edge_props properties now\<rparr>))
                      else (g, None)))))"

subsection \<open>createEntityWithMerge\<close>

text \<open>The candidate handed to the store: an entity without its identifier.\<close>

record NewEntity =
  ne_label :: string
  ne_type :: string
  ne_properties :: props
  ne_confidence :: "real option"
  ne_aliases :: "string list option"

text \<open>\<open>entity.confidence || 0.8\<close> and \<open>entity.aliases || []\<close>.\<close>

definition confidence_param :: "real option \<Rightarrow> real" where
  "confidence_param c = (case c of None \<Rightarrow> 0.8 | Some x \<Rightarrow> if x = 0 then 0.8 else x)"

definition aliases_param :: "string list option \<Rightarrow> string list" where
  "aliases_param a = (case a of None \<Rightarrow> [] | Some xs \<Rightarrow> xs)"

text \<open>
  \<open>CASE WHEN $confidence > coalesce(n.confidence, 0) THEN $confidence ELSE n.confidence END\<close>;
  a stored value that is not a number does not compare, and the \<open>ELSE\<close> branch keeps it.
\<close>

definition merged_confidence :: "pval \<Rightarrow> real \<Rightarrow> pval" where
  "merged_confidence old c =
     (case old of
        PNull \<Rightarrow> if c > 0 then PNum c else PNull
      | PNum x \<Rightarrow> if c > x then PNum c else PNum x
      | v \<Rightarrow> v)"

text \<open>
  \<open>coalesce(n.aliases, []) + $aliases\<close>: list concatenation; a stored scalar is put in
  front of the list.
\<close>

definition merged_aliases :: "pval \<Rightarrow> string list \<Rightarrow> pval" where
  "merged_aliases old as =
     (case old of
        PNull \<Rightarrow> PList (map PStr as)
      | PList vs \<Rightarrow> PList (vs @ map PStr as)
      | v \<Rightarrow> PList (v # map PStr as))"

definition on_create :: "NewEntity \<Rightarrow> nat \<Rightarrow> nat \<Rightarrow> node" where
  "on_create entity now i =
     \<lparr>nid = i, ntype = ne_type entity,
      nprops =
        add_props (ne_properties entity)
          (set_prop ''created_at'' (PTime now)
            (set_prop ''aliases'' (PList (map PStr (aliases_param (ne_aliases entity))))
              (set_prop ''confidence'' (PNum (confidence_param (ne_confidence entity)))
                [(''label'', PStr (ne_label entity))])))\<rparr>"

definition on_match :: "NewEntity \<Rightarrow> nat \<Rightarrow> node \<Rightarrow> node" where
  "on_match entity now n =
     n\<lparr>nprops :=
        add_props (ne_properties entity)
          (set_prop ''updated_at'' (PTime now)
            (set_prop ''aliases''
               (merged_aliases (get_prop (nprops n) ''aliases'') (aliases_param (ne_aliases entity)))
              (set_prop ''confidence''
                 (merged_confidence (get_prop (nprops n) ''confidence'')
                    (confidence_param (ne_confidence entity)))
                (nprops n))))\<rparr>"

text \<open>
  \<open>MERGE (n:T {label: $label})\<close> binds every node of type \<open>T\<close> with that label, or
  creates one when there is none; the entity returned is the first row. A rejected query
  raises, and the graph stays as it was.
\<close>

definition createEntityWithMerge :: "graph \<Rightarrow> NewEntity \<Rightarrow> nat \<Rightarrow> store_error + graph \<times> node" where
  "createEntityWithMerge g entity now =
     (if cypher_ident (ne_type entity) \<and> list_all (\<lambda>(k, v). storable v) (ne_properties entity)
      then
        (case filter (exact_match (ne_label entity) (ne_type entity)) (gnodes g) of
           [] \<Rightarrow>
             (let n = on_create entity now (fresh_id (map nid (gnodes g)))
              in Inr (g\<lparr>gnodes := gnodes g @ [n]\<rparr>, n))
         | m # ms \<Rightarrow>
             if list_all (\<lambda>n. storable (merged_aliases (get_prop (nprops n) ''aliases'')
                                          (aliases_param (ne_aliases entity)))) (m # ms)
             then Inr (g\<lparr>gnodes := map (\<lambda>n. if exact_match (ne_label entity) (ne_type entity) n
                                              then on_match entity now n else n) (gnodes g)\<rparr>,
                       on_match entity now m)
             else Inl StoreError)
      else Inl StoreError)"

text \<open>
  The aliases a stored value stands for: the elements of a list, nothing for a missing
  property, the value itself for a scalar.
\<close>

definition alias_values :: "pval \<Rightarrow> pval set" where
  "alias_values v = (case v of PNull \<Rightarrow> {} | PList vs \<Rightarrow> set vs | x \<Rightarrow> {x})"

text \<open>The stored entities with a given label and type.\<close>

definition stored_with :: "graph \<Rightarrow> string \<Rightarrow> string \<Rightarrow> node list" where
  "stored_with g l t = filter (exact_match l t) (gnodes g)"

section \<open>Extraction\<close>

subsection \<open>Candidates\<close>

record Entity =
  e_label :: string
  e_type :: string
  e_properties :: props
  e_confidence :: real
  e_aliases :: "string list option"

record Relationship =
  r_source :: string
  r_target :: string
  r_type :: string
  r_properties :: props
  r_confidence :: real
  r_context :: string

record ExtractionResult =
  entities :: "Entity list"
  relationships :: "Relationship list"

subsection \<open>LocalNLPProcessor\<close>

text \<open>
  \<open>[A-Z][a-z]+\<close> and \<open>[A-Z][a-z]+(?:\s+[A-Z][a-z]+)*\<close>. In the tables of patterns that
  follow a pattern comes with its flag \<open>i\<close>; every pattern of the tables has the flag \<open>g\<close>.
  The entity types are in the order in which \<open>Object.entries\<close> lists them.
\<close>

definition CapWord :: rx where
  "CapWord = Seq (Cls Upper) (Plus (Cls Lower))"

definition CapWords :: rx where
  "CapWords = Seq CapWord (Star (Seq (Plus (Cls Space)) CapWord))"

definition ENTITY_PATTERNS :: "(string \<times> (bool \<times> rx) list) list" where
  "ENTITY_PATTERNS =
    [(''PERSON'',
       [(False, Seqs [Bnd, Grp 1 CapWords, Bnd]),
        (True, Seqs [Bnd, Grp 1 (Alts (map Lit [''Mr'', ''Mrs'', ''Dr'', ''Prof'', ''Sir'', ''Madam'', ''Miss''])),
                     Plus (Cls Space), Grp 2 CapWords])]),
     (''ORGANIZATION'',
       [(True, Seqs [Bnd, Grp 1 (Seqs [CapWord,
                       Seq (Plus (Cls Space))
                           (Alts (map Lit [''Inc'', ''Corp'', ''LLC'', ''Ltd'', ''Company'', ''University'',
                                           ''School'', ''College''])),
                       Bnd])]),
        (True, Seqs [Bnd, Grp 1 (Alts (map Lit [''Google'', ''Microsoft'', ''Apple'', ''Tesla'', ''SpaceX'',
                                                 ''OpenAI'', ''Facebook'', ''Amazon'', ''Netflix'', ''Uber''])), Bnd])]),
     (''LOCATION'',
       [(True, Seqs [Bnd, Grp 1 (Seqs [CapWord,
                       Seq (Plus (Cls Space))
                           (Alts (map Lit [''City'', ''State'', ''Country'', ''Street'', ''Avenue'', ''Road'',
                                           ''Place'', ''Park''])),
                       Bnd])]),
        (True, Seqs [Bnd, Grp 1 (Alts (map Lit [''New York'', ''Los Angeles'', ''London'', ''Paris'', ''Tokyo'',
                                                 ''Delhi'', ''Mumbai'', ''California'', ''Texas'', ''India'',
                                                 ''USA'', ''America''])), Bnd])]),
     (''FOOD'',
       [(True, Seqs [Bnd, Grp 1 (Alts (map Lit [''apple'', ''mango'', ''banana'', ''orange'', ''pizza'', ''burger'',
                                                 ''sandwich'', ''rice'', ''bread'', ''cake'', ''cookie'',
                                                 ''chocolate'', ''ice cream'', ''coffee'', ''tea'', ''milk'',
                                                 ''water'', ''juice''])), Bnd])]),
     (''TECHNOLOGY'',
       [(True, Seqs [Bnd, Grp 1 (Alts (map Lit [''computer'', ''laptop'', ''phone'', ''smartphone'', ''tablet'',
                                                 ''software'', ''app'', ''website'', ''internet'', ''AI'',
                                                 ''robot'', ''drone''])), Bnd])]),
     (''OBJECT'',
       [(True, Seqs [Bnd, Grp 1 (Alts (map Lit [''car'', ''bike'', ''house'', ''book'', ''pen'', ''paper'', ''chair'',
                                                 ''table'', ''door'', ''window'', ''bag'', ''box'', ''bottle'',
                                                 ''cup'', ''glass''])), Bnd])])]"

text \<open>\<open>(\w+)\s+(?:verbs)\s+(\w+)\<close>, with the \<open>gi\<close> flags.\<close>

definition verb_pattern :: "rx \<Rightarrow> rx" where
  "verb_pattern verbs =
     Seqs [Grp 1 (Plus (Cls Word)), Plus (Cls Space), verbs, Plus (Cls Space), Grp 2 (Plus (Cls Word))]"

definition RELATIONSHIP_PATTERNS :: "(rx \<times> string \<times> real) list" where
  "RELATIONSHIP_PATTERNS =
    [(verb_pattern (Alts [Seq (Lit ''eat'') (Opt (Ch CHR ''s'')), Lit ''eating'', Lit ''ate'']), ''EATS'', 0.9),
     (verb_pattern (Alts [Seq (Lit ''love'') (Opt (Ch CHR ''s'')), Lit ''loving'', Lit ''loved'']), ''LOVES'', 0.9),
     (verb_pattern (Alts [Seq (Lit ''like'') (Opt (Ch CHR ''s'')), Lit ''liking'', Lit ''liked'']), ''LIKES'', 0.9),
     (verb_pattern (Alts [Seqs [Lit ''work'', Opt (Ch CHR ''s''), Plus (Cls Space), Lit ''at''],
                          Seqs [Lit ''employed'', Plus (Cls Space), Lit ''by'']]), ''WORKS_AT'', 0.8),
     (verb_pattern (Alts [Seqs [Lit ''live'', Opt (Ch CHR ''s''), Plus (Cls Space), Lit ''in''],
                          Seqs [Lit ''reside'', Opt (Ch CHR ''s''), Plus (Cls Space), Lit ''in'']]), ''LIVES_IN'', 0.8),
     (verb_pattern (Alts [Seq (Lit ''know'') (Opt (Ch CHR ''s'')), Lit ''knowing'', Lit ''knew'']), ''KNOWS'', 0.8),
     (verb_pattern (Alts [Seq (Lit ''own'') (Opt (Ch CHR ''s'')), Lit ''owning'', Lit ''owned'']), ''OWNS'', 0.8),
     (verb_pattern (Alts [Seq (Lit ''use'') (Opt (Ch CHR ''s'')), Lit ''using'', Lit ''used'']), ''USES'', 0.8),
     (verb_pattern (Alts [Lit ''has'', Lit ''have'', Lit ''having'', Lit ''had'']), ''HAS'', 0.7),
     (verb_pattern (Alts [Seq (Lit ''read'') (Opt (Ch CHR ''s'')), Lit ''reading'', Lit ''read'']), ''READS'', 0.8),
     (verb_pattern (Alts [Seq (Lit ''drive'') (Opt (Ch CHR ''s'')), Lit ''driving'', Lit ''drove'']), ''DRIVES'', 0.8),
     (verb_pattern (Alts [Seq (Lit ''play'') (Opt (Ch CHR ''s'')), Lit ''playing'', Lit ''played'']), ''PLAYS'', 0.8),
     (verb_pattern (Alts [Seq (Lit ''teache'') (Opt (Ch CHR ''s'')), Lit ''teaching'', Lit ''taught'']), ''TEACHES'', 0.8),
     (verb_pattern (Alts [Seq (Lit ''studie'') (Opt (Ch CHR ''s'')), Lit ''studying'', Lit ''studied'']), ''STUDIES'', 0.8),
     (Seqs [Grp 1 (Plus (Cls Word)), Plus (Cls Space),
            Alts [Lit ''is'', Lit ''are'', Lit ''was'', Lit ''were''], Plus (Cls Space),
            Opt (Alts [Lit ''a'', Lit ''an'', Lit ''the'']), Star (Cls Space),
            Grp 2 (Plus (Cls Word))], ''IS_A'', 0.7)]"

text \<open>
  The two accumulators of \<open>extractEntities\<close>: the list \<open>entities\<close> and the set
  \<open>foundEntities\<close>. The three functions named \<open>claim\<close> are the bodies of its three loops;
  \<open>match_label\<close> is \<open>match[1] || match[0]\<close>.
\<close>

type_synonym acc = "Entity list \<times> string list"

definition match_label :: "found \<Rightarrow> string" where
  "match_label m = (case match_group 1 m of None \<Rightarrow> whole m | Some s \<Rightarrow> if s = [] then whole m else s)"

definition claim_pattern_match :: "string \<Rightarrow> string \<Rightarrow> found \<Rightarrow> acc \<Rightarrow> acc" where
  "claim_pattern_match text entityType m a =
     (let entityLabel = match_label m;
          normalizedLabel = toLowerCase (trim entityLabel)
      in if length normalizedLabel > 1 \<and> normalizedLabel \<notin> set (snd a)
         then (fst a @ [\<lparr>e_label = capitalizeFirst (trim entityLabel), e_type = entityType,
                          e_properties = [(''context'', PStr text), (''extractedBy'', PStr ''local-nlp'')],
                          e_confidence = 0.85, e_aliases = Some []\<rparr>],
               snd a @ [normalizedLabel])
         else a)"

text \<open>
  The loops over the patterns of a type and over the types. A pattern whose \<open>exec\<close> loop
  does not end keeps the whole extraction from returning, which is the value \<open>None\<close>.
\<close>

fun scan_patterns :: "string \<Rightarrow> string \<Rightarrow> (bool \<times> rx) list \<Rightarrow> acc \<Rightarrow> acc option" where
  "scan_patterns text entityType [] a = Some a"
| "scan_patterns text entityType (pat # pats) a =
     (case exec_loop (fst pat) (snd pat) [] text of
        None \<Rightarrow> None
      | Some ms \<Rightarrow> scan_patterns text entityType pats (fold (claim_pattern_match text entityType) ms a))"

fun scan_groups :: "string \<Rightarrow> (string \<times> (bool \<times> rx) list) list \<Rightarrow> acc \<Rightarrow> acc option" where
  "scan_groups text [] a = Some a"
| "scan_groups text (grp # grps) a =
     (case scan_patterns text (fst grp) (snd grp) a of
        None \<Rightarrow> None
      | Some a' \<Rightarrow> scan_groups text grps a')"

definition guessEntityType :: "string \<Rightarrow> string \<Rightarrow> string" where
  "guessEntityType word context =
     (let lowerWord = toLowerCase word; lowerContext = toLowerCase context
      in if str_includes lowerContext (lowerWord @ '' eats'') \<or> str_includes lowerContext (lowerWord @ '' lives'')
         then ''PERSON''
         else if str_includes lowerContext (''eat '' @ lowerWord) \<or> str_includes lowerContext (''eating '' @ lowerWord)
         then ''FOOD''
         else if lowerWord \<in> set [''ram'', ''john'', ''mary'', ''david'', ''sarah'', ''mike'', ''anna'', ''tom'',
                                  ''lisa'', ''alex'', ''sam'', ''emma'', ''jack'', ''lucy'']
         then ''PERSON''
         else ''CONCEPT'')"

definition isLikelyNoun :: "string \<Rightarrow> bool" where
  "isLikelyNoun word =
     (toLowerCase word \<in> set [''apple'', ''mango'', ''banana'', ''orange'', ''book'', ''car'', ''house'', ''dog'',
                              ''cat'', ''computer'', ''phone'', ''table'', ''chair'', ''food'', ''water'',
                              ''coffee'', ''tea'', ''pizza'', ''burger''])"

definition claim_capitalized :: "string \<Rightarrow> string \<Rightarrow> acc \<Rightarrow> acc" where
  "claim_capitalized text word a =
     (let normalizedWord = toLowerCase word
      in if normalizedWord \<notin> set (snd a) \<and> length word > 2
         then (fst a @ [\<lparr>e_label = word, e_type = guessEntityType word text,
                          e_properties = [(''context'', PStr text), (''extractedBy'', PStr ''local-nlp''),
                                          (''guessed'', PBool True)],
                          e_confidence = 0.7, e_aliases = Some []\<rparr>],
               snd a @ [normalizedWord])
         else a)"

definition claim_noun :: "string \<Rightarrow> string \<Rightarrow> acc \<Rightarrow> acc" where
  "claim_noun text noun a =
     (if length noun > 2 \<and> noun \<notin> set (snd a) \<and> isLikelyNoun noun
      then (fst a @ [\<lparr>e_label = capitalizeFirst noun, e_type = ''OBJECT'',
                       e_properties = [(''context'', PStr text), (''extractedBy'', PStr ''local-nlp''),
                                       (''commonNoun'', PBool True)],
                       e_confidence = 0.6, e_aliases = Some []\<rparr>],
            snd a @ [noun])
      else a)"

definition extractEntities :: "string \<Rightarrow> Entity list option" where
  "extractEntities text =
     (case scan_groups text ENTITY_PATTERNS ([], []) of
        None \<Rightarrow> None
      | Some a \<Rightarrow>
          (let capitalizedWords = match_all False (Seqs [Bnd, Cls Upper, Plus (Cls Lower), Bnd]) [] text;
               a2 = fold (claim_capitalized text) capitalizedWords a;
               commonNouns = match_all False (Seqs [Bnd, Plus (Cls Lower), Bnd]) [] text;
               a3 = fold (claim_noun text) commonNouns a2
           in Some (fst a3)))"

text \<open>
  The body of the loop of \<open>extractRelationships\<close>: the relationships one match adds.
  \<open>match[1].trim()\<close> raises for a group that took no part in the match.
\<close>

definition relationship_of_match ::
  "string list \<Rightarrow> string \<Rightarrow> real \<Rightarrow> found \<Rightarrow> Relationship list option" where
  "relationship_of_match entityLabels t c m =
     (case (match_group 1 m, match_group 2 m) of
        (Some g1, Some g2) \<Rightarrow>
          (let source = capitalizeFirst (trim g1); target = capitalizeFirst (trim g2)
           in if toLowerCase source \<in> set entityLabels \<and> toLowerCase target \<in> set entityLabels
                 \<and> toLowerCase source \<noteq> toLowerCase target
              then Some [\<lparr>r_source = source, r_target = target, r_type = t,
                           r_properties = [(''extractedBy'', PStr ''local-nlp''), (''originalMatch'', PStr (whole m))],
                           r_confidence = c, r_context = whole m\<rparr>]
              else Some [])
      | _ \<Rightarrow> None)"

text \<open>The results of a loop whose every round adds some items, unless a round fails.\<close>

fun collect :: "('a \<Rightarrow> 'b list option) \<Rightarrow> 'a list \<Rightarrow> 'b list option" where
  "collect f [] = Some []"
| "collect f (x # xs) =
     (case f x of None \<Rightarrow> None
      | Some ys \<Rightarrow> (case collect f xs of None \<Rightarrow> None | Some zs \<Rightarrow> Some (ys @ zs)))"

definition pattern_relationships ::
  "string \<Rightarrow> string list \<Rightarrow> rx \<times> string \<times> real \<Rightarrow> Relationship list option" where
  "pattern_relationships text entityLabels relationshipPattern =
     (case exec_loop True (fst relationshipPattern) [] text of
        None \<Rightarrow> None
      | Some ms \<Rightarrow>
          collect (relationship_of_match entityLabels (fst (snd relationshipPattern))
                     (snd (snd relationshipPattern))) ms)"

definition extractRelationships :: "string \<Rightarrow> Entity list \<Rightarrow> Relationship list option" where
  "extractRelationships text ents =
     collect (pattern_relationships text (map (\<lambda>e. toLowerCase (e_label e)) ents)) RELATIONSHIP_PATTERNS"

text \<open>
  \<open>filterEntities\<close> keeps the first entity of every lower-cased label of two characters
  or more, then sorts by falling confidence; the sort keeps equals in their order.
  \<open>filterRelationships\<close> is given the entities as extracted, not as filtered.
\<close>

fun dedup_entities :: "string list \<Rightarrow> Entity list \<Rightarrow> Entity list" where
  "dedup_entities seen [] = []"
| "dedup_entities seen (entity # es) =
     (let normalizedLabel = toLowerCase (e_label entity)
      in if length normalizedLabel > 1 \<and> normalizedLabel \<notin> set seen
         then entity # dedup_entities (seen @ [normalizedLabel]) es
         else dedup_entities seen es)"

definition sort_by_confidence :: "Entity list \<Rightarrow> Entity list" where
  "sort_by_confidence es = sort_key (\<lambda>e. - e_confidence e) es"

definition local_filterEntities :: "Entity list \<Rightarrow> Entity list" where
  "local_filterEntities ents = sort_by_confidence (dedup_entities [] ents)"

definition local_filterRelationships :: "Relationship list \<Rightarrow> Entity list \<Rightarrow> Relationship list" where
  "local_filterRelationships rels ents =
     (let entityLabels = map (\<lambda>e. toLowerCase (e_label e)) ents
      in filter (\<lambda>rel. toLowerCase (r_source rel) \<in> set entityLabels
                      \<and> toLowerCase (r_target rel) \<in> set entityLabels
                      \<and> toLowerCase (r_source rel) \<noteq> toLowerCase (r_target rel)) rels)"

definition local_extractEntitiesAndRelationships :: "string \<Rightarrow> ExtractionResult option" where
  "local_extractEntitiesAndRelationships text =
     (case extractEntities text of
        None \<Rightarrow> None
      | Some ents \<Rightarrow>
          (case extractRelationships text ents of
             None \<Rightarrow> None
           | Some rels \<Rightarrow>
               Some \<lparr>entities = local_filterEntities ents,
                     relationships = local_filterRelationships rels ents\<rparr>))"

subsection \<open>GeminiNLPProcessor\<close>

text \<open>
  The reply of the external service, once parsed, is a list of entities and a list of
  relationships; what the service answers is a parameter of the model, and the filters of
  this processor are applied to it. An entity that is \<open>null\<close> or has no label is \<open>None\<close>
  here, and so is a relationship that is \<open>null\<close>; a relationship without a source or a
  target has the empty string there, which the filter treats alike.
\<close>

definition isTechnicalTerm :: "string \<Rightarrow> bool" where
  "isTechnicalTerm term =
     list_ex (\<lambda>tech. str_includes (toLowerCase term) (toLowerCase tech))
       [''pdf'', ''docx'', ''file'', ''text'', ''document'', ''conversion'', ''selectable'', ''parsing'',
        ''extraction'', ''processing'', ''format'', ''content'', ''stream'', ''object'', ''implementation'',
        ''library'', ''javascript'', ''mammoth'', ''buffer'', ''array'', ''string'', ''method'', ''function'',
        ''class'']"

text \<open>
  \<open>/^(a|an|the|this|that|these|those)$/i\<close>, \<open>/^(very|quite|rather|some|any|all)$/i\<close>,
  \<open>/^\d+$/\<close> and \<open>/^[a-z]$/i\<close>.
\<close>

definition veryGenericPatterns :: "(bool \<times> rx) list" where
  "veryGenericPatterns =
     [(True, Seqs [Bol, Grp 1 (Alts (map Lit [''a'', ''an'', ''the'', ''this'', ''that'', ''these'', ''those''])), Eol]),
      (True, Seqs [Bol, Grp 1 (Alts (map Lit [''very'', ''quite'', ''rather'', ''some'', ''any'', ''all''])), Eol]),
      (False, Seqs [Bol, Plus (Cls Digit), Eol]),
      (True, Seqs [Bol, Cls Lower, Eol])]"

definition isVeryGenericEntity :: "Entity \<Rightarrow> bool" where
  "isVeryGenericEntity entity =
     (e_label entity = [] \<or> list_ex (\<lambda>(ci, pattern). test ci pattern (e_label entity)) veryGenericPatterns)"

fun gemini_dedup :: "string list \<Rightarrow> Entity option list \<Rightarrow> Entity list" where
  "gemini_dedup seen [] = []"
| "gemini_dedup seen (None # es) = gemini_dedup seen es"
| "gemini_dedup seen (Some entity # es) =
     (if e_label entity = [] then gemini_dedup seen es
      else
        let normalizedLabel = trim (toLowerCase (e_label entity))
        in if isTechnicalTerm (e_label entity) then gemini_dedup seen es
           else if length normalizedLabel > 0 \<and> normalizedLabel \<notin> set seen \<and> \<not> isVeryGenericEntity entity
           then entity # gemini_dedup (seen @ [normalizedLabel]) es
           else gemini_dedup seen es)"

definition gemini_filterEntities :: "Entity option list \<Rightarrow> Entity list" where
  "gemini_filterEntities ents = sort_by_confidence (gemini_dedup [] ents)"

definition keep_relationship :: "string list \<Rightarrow> Relationship option \<Rightarrow> bool" where
  "keep_relationship entityLabels item =
     (case item of
        None \<Rightarrow> False
      | Some rel \<Rightarrow>
          if r_source rel = [] \<or> r_target rel = [] then False
          else if isTechnicalTerm (r_source rel) \<or> isTechnicalTerm (r_target rel) then False
          else toLowerCase (r_source rel) \<in> set entityLabels
               \<and> toLowerCase (r_target rel) \<in> set entityLabels
               \<and> toLowerCase (r_source rel) \<noteq> toLowerCase (r_target rel)
               \<and> r_confidence rel \<ge> 0.7)"

text \<open>
  \<open>entities.map((e) => e.label.toLowerCase())\<close> over the reply's entity list: an item
  that is \<open>null\<close> or has no label raises.
\<close>

fun raw_labels :: "Entity option list \<Rightarrow> string list option" where
  "raw_labels [] = Some []"
| "raw_labels (None # es) = None"
| "raw_labels (Some e # es) =
     (case raw_labels es of None \<Rightarrow> None | Some ls \<Rightarrow> Some (toLowerCase (e_label e) # ls))"

definition gemini_filterRelationships ::
  "Relationship option list \<Rightarrow> Entity option list \<Rightarrow> Relationship list option" where
  "gemini_filterRelationships rels ents =
     (case raw_labels ents of
        None \<Rightarrow> None
      | Some entityLabels \<Rightarrow>
          Some (List.map_filter (\<lambda>item. if keep_relationship entityLabels item then item else None) rels))"

record RawResult =
  raw_entities :: "Entity option list"
  raw_relationships :: "Relationship option list"

definition gemini_extractEntitiesAndRelationships :: "RawResult \<Rightarrow> ExtractionResult option" where
  "gemini_extractEntitiesAndRelationships result =
     (case gemini_filterRelationships (raw_relationships result) (raw_entities result) of
        None \<Rightarrow> None
      | Some rels \<Rightarrow> Some \<lparr>entities = gemini_filterEntities (raw_entities result), relationships = rels\<rparr>)"

subsection \<open>HybridNLPProcessor\<close>

text \<open>
  The environment of a run: the API key, if one is set, and the parsed reply the external
  service gives for a text. An exception raised while the reply is filtered is caught by
  the coordinator, like every other failure of the external strategy.
\<close>

record environment =
  GEMINI_API_KEY :: "string option"
  gemini_reply :: "string \<Rightarrow> RawResult"

definition enhance_properties :: "string \<Rightarrow> props \<Rightarrow> props" where
  "enhance_properties text ps =
     AList.update ''processingMethod'' (PStr ''local'')
       (AList.update ''originalText'' (PStr text)
         (AList.update ''enhanced'' (PBool True) ps))"

definition enhanceLocalResults :: "ExtractionResult \<Rightarrow> string \<Rightarrow> ExtractionResult" where
  "enhanceLocalResults result text =
     \<lparr>entities = map (\<lambda>entity. entity\<lparr>e_properties := enhance_properties text (e_properties entity)\<rparr>)
                   (entities result),
      relationships = map (\<lambda>relationship.
                       relationship\<lparr>r_properties := enhance_properties text (r_properties relationship)\<rparr>)
                   (relationships result)\<rparr>"

text \<open>\<open>if (process.env.GEMINI_API_KEY)\<close>: set and not the empty string.\<close>

definition key_configured :: "environment \<Rightarrow> bool" where
  "key_configured env = (case GEMINI_API_KEY env of None \<Rightarrow> False | Some k \<Rightarrow> k \<noteq> [])"

definition local_fallback :: "string \<Rightarrow> ExtractionResult option" where
  "local_fallback text =
     (case local_extractEntitiesAndRelationships text of
        None \<Rightarrow> None
      | Some result \<Rightarrow> Some (enhanceLocalResults result text))"

definition hybrid_extractEntitiesAndRelationships :: "environment \<Rightarrow> string \<Rightarrow> ExtractionResult option" where
  "hybrid_extractEntitiesAndRelationships env text =
     (if key_configured env
      then (case gemini_extractEntitiesAndRelationships (gemini_reply env text) of
              None \<Rightarrow> local_fallback text
            | Some result \<Rightarrow>
                if length (entities result) > 0 \<or> length (relationships result) > 0
                then Some result
                else local_fallback text)
      else local_fallback text)"

subsection \<open>The process-text request\<close>

text \<open>
  The body of a request, the fields of the response that the statements below speak of,
  and the three kinds of response. A text that is missing or empty is refused;
  \<open>clearBefore\<close> is \<open>true\<close> when it is not given. The argument \<open>now\<close> of the store
  operations is the reading of the store's clock, which \<open>datetime()\<close> returns.
\<close>

record Request =
  req_text :: "string option"
  req_clearBefore :: "bool option"

record Summary =
  entitiesCount :: nat
  relationshipsCount :: nat
  processingMethod :: string
  extractedEntities :: nat
  extractedRelationships :: nat

datatype Response = BadRequest | ServerError | Success Summary

definition as_new :: "Entity \<Rightarrow> NewEntity" where
  "as_new e = \<lparr>ne_label = e_label e, ne_type = e_type e, ne_properties = e_properties e,
               ne_confidence = Some (e_confidence e), ne_aliases = e_aliases e\<rparr>"

text \<open>
  The loop over the extracted entities: an entity whose upsert raises is logged and left
  out of \<open>processedEntities\<close>.
\<close>

fun process_entities :: "graph \<Rightarrow> nat \<Rightarrow> Entity list \<Rightarrow> node list \<Rightarrow> graph \<times> nat \<times> node list" where
  "process_entities g now [] processed = (g, now, processed)"
| "process_entities g now (entity # es) processed =
     (case createEntityWithMerge g (as_new entity) now of
        Inl err \<Rightarrow> process_entities g (Suc now) es processed
      | Inr (g', newEntity) \<Rightarrow> process_entities g' (Suc now) es (processed @ [newEntity]))"

text \<open>
  \<open>processedEntities.find((e) => e.label.toLowerCase() === name.toLowerCase())\<close>: the
  label and type of the first processed entity that agrees; a processed entity whose
  label is not a string raises, and the relationship is skipped.
\<close>

datatype 'a lookup = Found 'a | Missing | Raised

fun find_processed :: "string \<Rightarrow> node list \<Rightarrow> (string \<times> string) lookup" where
  "find_processed name [] = Missing"
| "find_processed name (e # es) =
     (case get_prop (nprops e) ''label'' of
        PStr s \<Rightarrow> if toLowerCase s = toLowerCase name then Found (s, ntype e) else find_processed name es
      | _ \<Rightarrow> Raised)"

fun process_relationships ::
  "graph \<Rightarrow> nat \<Rightarrow> node list \<Rightarrow> Relationship list \<Rightarrow> edge list \<Rightarrow> graph \<times> nat \<times> edge list" where
  "process_relationships g now processedEntities [] processed = (g, now, processed)"
| "process_relationships g now processedEntities (relationship # rs) processed =
     (case find_processed (r_source relationship) processedEntities of
        Found (sourceLabel, sourceType) \<Rightarrow>
          (case find_processed (r_target relationship) processedEntities of
             Found (targetLabel, targetType) \<Rightarrow>
               (case createRelationshipWithValidation g sourceLabel targetLabel sourceType targetType
                       (r_type relationship)
                       (AList.update ''context'' (PStr (r_context relationship))
                          (AList.update ''confidence'' (PNum (r_confidence relationship))
                             (r_properties relationship)))
                       now of
                  (g', Some newRelationship) \<Rightarrow>
                    process_relationships g' (Suc now) processedEntities rs (processed @ [newRelationship])
                | (g', None) \<Rightarrow> process_relationships g' (Suc now) processedEntities rs processed)
           | _ \<Rightarrow> process_relationships g now processedEntities rs processed)
      | _ \<Rightarrow> process_relationships g now processedEntities rs processed)"

definition POST :: "environment \<Rightarrow> graph \<Rightarrow> nat \<Rightarrow> Request \<Rightarrow> graph \<times> Response" where
  "POST env g now request =
     (case req_text request of
        None \<Rightarrow> (g, BadRequest)
      | Some text \<Rightarrow>
          if text = [] then (g, BadRequest)
          else
            let g0 = (if req_clearBefore request = Some False then g else clearAllData g)
            in (case hybrid_extractEntitiesAndRelationships env text of
                  None \<Rightarrow> (g0, ServerError)
                | Some result \<Rightarrow>
                    (case process_entities g0 now (entities result) [] of
                       (g1, now1, processedEntities) \<Rightarrow>
                         (case process_relationships g1 now1 processedEntities (relationships result) [] of
                            (g2, now2, processedRelationships) \<Rightarrow>
                              (g2, Success
                                 \<lparr>entitiesCount = length processedEntities,
                                  relationshipsCount = length processedRelationships,
                                  processingMethod = (if length (entities result) > 0 then ''gemini'' else ''local''),
                                  extractedEntities = length (entities result),
                                  extractedRelationships = length (relationships result)\<rparr>)))))"

section \<open>Notions used in the statements and proofs\<close>

text \<open>
  Three syntactic properties of a pattern: every match takes at least one character; every
  match sets group \<open>i\<close>; every character a match takes satisfies \<open>P\<close>.
\<close>

primrec consumes :: "rx \<Rightarrow> bool" where
  "consumes Eps = False"
| "consumes (Ch a) = True"
| "consumes (Cls k) = True"
| "consumes Bnd = False"
| "consumes Bol = False"
| "consumes Eol = False"
| "consumes (Seq a b) = (consumes a \<or> consumes b)"
| "consumes (Alt a b) = (consumes a \<and> consumes b)"
| "consumes (Star a) = False"
| "consumes (Grp i a) = consumes a"

primrec binds :: "nat \<Rightarrow> rx \<Rightarrow> bool" where
  "binds i Eps = False"
| "binds i (Ch a) = False"
| "binds i (Cls k) = False"
| "binds i Bnd = False"
| "binds i Bol = False"
| "binds i Eol = False"
| "binds i (Seq a b) = (binds i a \<or> binds i b)"
| "binds i (Alt a b) = (binds i a \<and> binds i b)"
| "binds i (Star a) = False"
| "binds i (Grp j a) = (i = j \<or> binds i a)"

primrec chars_sat :: "(char \<Rightarrow> bool) \<Rightarrow> bool \<Rightarrow> rx \<Rightarrow> bool" where
  "chars_sat P ci Eps = True"
| "chars_sat P ci (Ch a) = (\<forall>c. ch_match ci a c \<longrightarrow> P c)"
| "chars_sat P ci (Cls k) = (\<forall>c. cls_match ci k c \<longrightarrow> P c)"
| "chars_sat P ci Bnd = True"
| "chars_sat P ci Bol = True"
| "chars_sat P ci Eol = True"
| "chars_sat P ci (Seq a b) = (chars_sat P ci a \<and> chars_sat P ci b)"
| "chars_sat P ci (Alt a b) = (chars_sat P ci a \<and> chars_sat P ci b)"
| "chars_sat P ci (Star a) = chars_sat P ci a"
| "chars_sat P ci (Grp i a) = chars_sat P ci a"

text \<open>A matcher state reached from another by reading a word whose characters satisfy \<open>P\<close>.\<close>

definition reaches :: "(char \<Rightarrow> bool) \<Rightarrow> mstate \<Rightarrow> mstate \<Rightarrow> bool" where
  "reaches P st st' =
     (\<exists>w. fst st' = rev w @ fst st \<and> fst (snd st) = w @ fst (snd st') \<and> list_all P w)"

text \<open>The groups a matcher state has set.\<close>

definition bound :: "mstate \<Rightarrow> nat set" where
  "bound st = fst ` set (snd (snd st))"

text \<open>A string without white space at either end; a label whose normal form has two characters or more.\<close>

definition tight :: "string \<Rightarrow> bool" where
  "tight s = (s = [] \<or> (\<not> is_space (hd s) \<and> \<not> is_space (last s)))"

definition label_ok :: "string \<Rightarrow> bool" where
  "label_ok l = (1 < length (trim (toLowerCase l)))"

text \<open>
  An edge that links two stored entities whose labels differ after lower-casing.
\<close>

definition links_distinct_labels :: "graph \<Rightarrow> edge \<Rightarrow> bool" where
  "links_distinct_labels g e =
     list_ex (\<lambda>a. list_ex (\<lambda>b.
         nid a = esrc e \<and> nid b = etgt e \<and>
         (case (get_prop (nprops a) ''label'', get_prop (nprops b) ''label'') of
            (PStr sa, PStr sb) \<Rightarrow> toLowerCase sa \<noteq> toLowerCase sb
          | _ \<Rightarrow> False)) (gnodes g)) (gnodes g)"

text \<open>What a result holds, item by item; the method tag of a response.\<close>

definition entity_view :: "ExtractionResult \<Rightarrow> (string \<times> string) list" where
  "entity_view res = map (\<lambda>e. (e_label e, e_type e)) (entities res)"

definition relationship_view :: "ExtractionResult \<Rightarrow> (string \<times> string \<times> string) list" where
  "relationship_view res = map (\<lambda>r. (r_source r, r_type r, r_target r)) (relationships res)"

definition response_method :: "Response \<Rightarrow> string option" where
  "response_method r = (case r of Success s \<Rightarrow> Some (processingMethod s) | _ \<Rightarrow> None)"

text \<open>
  The External strategy's result is the one used: the key is configured, the strategy
  returned, and it returned an entity or a relationship.
\<close>

definition external_used :: "environment \<Rightarrow> string \<Rightarrow> bool" where
  "external_used env text =
     (key_configured env \<and>
      (case gemini_extractEntitiesAndRelationships (gemini_reply env text) of
         None \<Rightarrow> False
       | Some result \<Rightarrow> entities result \<noteq> [] \<or> relationships result \<noteq> []))"

text \<open>
  The local provenance stamp: the property bag with \<open>enhanced\<close>, \<open>originalText\<close> and
  \<open>processingMethod\<close> set, and a result whose items are those of another one, stamped.
\<close>

definition stamped ::
  "string \<Rightarrow> props \<Rightarrow> props \<Rightarrow> bool" where
  "stamped text ps ps' =
     (map_of ps' = (map_of ps)(''enhanced'' \<mapsto> PBool True, ''originalText'' \<mapsto> PStr text,
                              ''processingMethod'' \<mapsto> PStr ''local''))"

definition stamped_copy :: "string \<Rightarrow> ExtractionResult \<Rightarrow> ExtractionResult \<Rightarrow> bool" where
  "stamped_copy text l res =
     (list_all2 (\<lambda>e e'. e_label e' = e_label e \<and> e_type e' = e_type e \<and> e_confidence e' = e_confidence e
                         \<and> e_aliases e' = e_aliases e \<and> stamped text (e_properties e) (e_properties e'))
        (entities l) (entities res)
      \<and> list_all2 (\<lambda>r r'. r_source r' = r_source r \<and> r_target r' = r_target r \<and> r_type r' = r_type r
                           \<and> r_confidence r' = r_confidence r \<and> r_context r' = r_context r
                           \<and> stamped text (r_properties r) (r_properties r'))
          (relationships l) (relationships res))"

section \<open>Example data\<close>

definition empty_graph :: graph where
  "empty_graph = \<lparr>gnodes = [], gedges = []\<rparr>"

definition candidate :: "string \<Rightarrow> string \<Rightarrow> real \<Rightarrow> string list \<Rightarrow> props \<Rightarrow> NewEntity" where
  "candidate l t c as ps =
     \<lparr>ne_label = l, ne_type = t, ne_properties = ps, ne_confidence = Some c, ne_aliases = Some as\<rparr>"

definition entity :: "string \<Rightarrow> string \<Rightarrow> real \<Rightarrow> string list \<Rightarrow> props \<Rightarrow> Entity" where
  "entity l t c as ps =
     \<lparr>e_label = l, e_type = t, e_properties = ps, e_confidence = c, e_aliases = Some as\<rparr>"

definition stored_apple :: graph where
  "stored_apple =
     \<lparr>gnodes = [\<lparr>nid = 1, ntype = ''COMPANY'',
                  nprops = [(''label'', PStr ''Apple''), (''confidence'', PNum 0.85),
                            (''aliases'', PList [PStr ''Apple Inc'']), (''context'', PStr ''a''),
                            (''source'', PStr ''doc1'')]\<rparr>],
      gedges = []\<rparr>"



text \<open>A store whose scan lists \<open>Apple\<close> before the older \<open>apple\<close>.\<close>

definition twin_graph :: graph where
  "twin_graph =
     \<lparr>gnodes = [\<lparr>nid = 2, ntype = ''FOOD'', nprops = [(''label'', PStr ''Apple'')]\<rparr>,
                \<lparr>nid = 1, ntype = ''FOOD'', nprops = [(''label'', PStr ''apple'')]\<rparr>,
                \<lparr>nid = 3, ntype = ''PERSON'', nprops = [(''label'', PStr ''Tim'')]\<rparr>],
      gedges = []\<rparr>"

definition sample_text :: string where
  "sample_text = ''Apple is founded by Steve Jobs. Elon Musk owns Tesla.''"

definition no_key :: environment where
  "no_key = \<lparr>GEMINI_API_KEY = None, gemini_reply = (\<lambda>text. \<lparr>raw_entities = [], raw_relationships = []\<rparr>)\<rparr>"

definition with_key :: "RawResult \<Rightarrow> environment" where
  "with_key reply = \<lparr>GEMINI_API_KEY = Some ''key'', gemini_reply = (\<lambda>text. reply)\<rparr>"

definition relationship :: "string \<Rightarrow> string \<Rightarrow> string \<Rightarrow> real \<Rightarrow> Relationship" where
  "relationship s t d c =
     \<lparr>r_source = s, r_target = d, r_type = t, r_properties = [], r_confidence = c, r_context = []\<rparr>"

text \<open>A reply whose relationship carries, as its type, text that ends the pattern early.\<close>

definition redirect_reply :: RawResult where
  "redirect_reply =
     \<lparr>raw_entities = [Some (entity ''Elon'' ''PERSON'' 0.9 [] []), Some (entity ''Tesla'' ''COMPANY'' 0.9 [] [])],
      raw_relationships = [Some (relationship ''Elon'' ''X]->(a) //'' ''Tesla'' 0.9)]\<rparr>"

text \<open>A reply whose two entities the filter drops and whose relationship it keeps.\<close>

definition generic_reply :: RawResult where
  "generic_reply =
     \<lparr>raw_entities = [Some (entity ''The'' ''CONCEPT'' 0.9 [] []), Some (entity ''This'' ''CONCEPT'' 0.9 [] [])],
      raw_relationships = [Some (relationship ''The'' ''RELATES_TO'' ''This'' 0.9)]\<rparr>"


section \<open>Evaluation of character tests\<close>

lemma is_upper_code [code]:
  "is_upper (Char b0 b1 b2 b3 b4 b5 b6 b7) =
     (b6 \<and> \<not> b5 \<and> \<not> b7 \<and> (b0 \<or> b1 \<or> b2 \<or> b3 \<or> b4) \<and> \<not> (b4 \<and> b3 \<and> (b2 \<or> (b1 \<and> b0))))"
  by (cases b0; cases b1; cases b2; cases b3; cases b4; cases b5; cases b6; cases b7; simp add: is_upper_def)

lemma is_lower_code [code]:
  "is_lower (Char b0 b1 b2 b3 b4 b5 b6 b7) =
     (b6 \<and> b5 \<and> \<not> b7 \<and> (b0 \<or> b1 \<or> b2 \<or> b3 \<or> b4) \<and> \<not> (b4 \<and> b3 \<and> (b2 \<or> (b1 \<and> b0))))"
  by (cases b0; cases b1; cases b2; cases b3; cases b4; cases b5; cases b6; cases b7; simp add: is_lower_def)

lemma is_digit_code [code]:
  "is_digit (Char b0 b1 b2 b3 b4 b5 b6 b7) =
     (\<not> b7 \<and> \<not> b6 \<and> b5 \<and> b4 \<and> \<not> (b3 \<and> (b2 \<or> b1)))"
  by (cases b0; cases b1; cases b2; cases b3; cases b4; cases b5; cases b6; cases b7; simp add: is_digit_def)

lemma is_space_code [code]:
  "is_space (Char b0 b1 b2 b3 b4 b5 b6 b7) =
     (\<not> b7 \<and> \<not> b6 \<and> \<not> b4 \<and>
      ((b5 \<and> \<not> b0 \<and> \<not> b1 \<and> \<not> b2 \<and> \<not> b3)
       \<or> (\<not> b5 \<and> b3 \<and> ((\<not> b2 \<and> (b1 \<or> b0)) \<or> (b2 \<and> \<not> b1)))))"
  by (cases b0; cases b1; cases b2; cases b3; cases b4; cases b5; cases b6; cases b7; simp add: is_space_def)

lemma lower_char_code [code]:
  "lower_char (Char b0 b1 b2 b3 b4 b5 b6 b7) =
     (if is_upper (Char b0 b1 b2 b3 b4 b5 b6 b7) then Char b0 b1 b2 b3 b4 True b6 b7
      else Char b0 b1 b2 b3 b4 b5 b6 b7)"
  by (cases b0; cases b1; cases b2; cases b3; cases b4; cases b5; cases b6; cases b7;
      simp add: lower_char_def is_upper_def char_of_eq_iff take_bit_eq_mod)

lemma upper_char_code [code]:
  "upper_char (Char b0 b1 b2 b3 b4 b5 b6 b7) =
     (if is_lower (Char b0 b1 b2 b3 b4 b5 b6 b7) then Char b0 b1 b2 b3 b4 False b6 b7
      else Char b0 b1 b2 b3 b4 b5 b6 b7)"
  by (cases b0; cases b1; cases b2; cases b3; cases b4; cases b5; cases b6; cases b7;
      simp add: upper_char_def is_lower_def char_of_eq_iff take_bit_eq_mod)

section \<open>Properties of the matcher\<close>

text \<open>
  Every state the matcher returns is reached by reading a word off the front of the rest,
  and a pattern that takes a character leaves a shorter rest.
\<close>

lemma reaches_refl: "reaches P st st"
  by (simp add: reaches_def)

lemma reaches_trans: "reaches P a b \<Longrightarrow> reaches P b c \<Longrightarrow> reaches P a c"
  unfolding reaches_def
proof (elim exE conjE)
  fix w v
  assume "fst b = rev w @ fst a" "fst (snd a) = w @ fst (snd b)" "list_all P w"
    "fst c = rev v @ fst b" "fst (snd b) = v @ fst (snd c)" "list_all P v"
  then have "fst c = rev (w @ v) @ fst a \<and> fst (snd a) = (w @ v) @ fst (snd c) \<and> list_all P (w @ v)"
    by simp
  then show "\<exists>u. fst c = rev u @ fst a \<and> fst (snd a) = u @ fst (snd c) \<and> list_all P u"
    by blast
qed

lemma reaches_rest_le: "reaches P st st' \<Longrightarrow> rest_len st' \<le> rest_len st"
  by (auto simp: reaches_def rest_len_def)

lemma step_if_reaches:
  assumes "st' \<in> set (step_if Q st)" and "\<And>c. Q c \<Longrightarrow> P c"
  shows "reaches P st st'"
proof -
  obtain p x caps where st: "st = (p, x, caps)" by (cases st)
  show ?thesis
  proof (cases x)
    case Nil
    with assms st show ?thesis by (simp add: step_if_def)
  next
    case (Cons c cs)
    with assms st have "Q c" "st' = (c # p, cs, caps)"
      by (auto simp: step_if_def split: if_splits)
    with assms(2) st Cons show ?thesis
      by (auto simp: reaches_def intro!: exI [of _ "[c]"])
  qed
qed

lemma star_iter_reaches:
  assumes f: "\<And>a b. b \<in> set (f a) \<Longrightarrow> reaches P a b"
  shows "st' \<in> set (star_iter n f st) \<Longrightarrow> reaches P st st'"
proof (induction n arbitrary: st)
  case 0
  then show ?case by (simp add: reaches_refl)
next
  case (Suc n)
  from Suc.prems consider "st' = st"
    | st'' where "st'' \<in> set (f st)" "st' \<in> set (star_iter n f st'')"
    by auto
  then show ?case
  proof cases
    case 1
    then show ?thesis by (simp add: reaches_refl)
  next
    case 2
    then show ?thesis using f Suc.IH reaches_trans by blast
  qed
qed

lemma capture_reaches: "reaches P st st' \<Longrightarrow> reaches P st (capture i st st')"
  by (cases st') (simp add: capture_def reaches_def)

lemma rmatch_reaches:
  "chars_sat P ci r \<Longrightarrow> st' \<in> set (rmatch ci r st) \<Longrightarrow> reaches P st st'"
proof (induction r arbitrary: st st')
  case (Seq a b)
  then obtain st'' where "st'' \<in> set (rmatch ci a st)" "st' \<in> set (rmatch ci b st'')"
    by auto
  with Seq show ?case using reaches_trans by (metis chars_sat.simps(7))
next
  case (Star a)
  then show ?case using star_iter_reaches [of "rmatch ci a" P] by auto
next
  case (Grp i a)
  then obtain s where "s \<in> set (rmatch ci a st)" "st' = capture i st s" by auto
  with Grp show ?case using capture_reaches by simp
qed (auto simp: reaches_refl intro: step_if_reaches split: if_splits)

lemma chars_sat_True: "chars_sat (\<lambda>c. True) ci r"
  by (induction r) auto

lemma rmatch_rest_le: "st' \<in> set (rmatch ci r st) \<Longrightarrow> rest_len st' \<le> rest_len st"
  using rmatch_reaches [OF chars_sat_True] reaches_rest_le by blast

lemma step_if_progress: "st' \<in> set (step_if Q st) \<Longrightarrow> rest_len st' < rest_len st"
  by (cases st) (auto simp: step_if_def rest_len_def split: list.splits if_splits)

lemma rmatch_progress:
  "consumes r \<Longrightarrow> st' \<in> set (rmatch ci r st) \<Longrightarrow> rest_len st' < rest_len st"
proof (induction r arbitrary: st st')
  case (Seq a b)
  then obtain st'' where m: "st'' \<in> set (rmatch ci a st)" "st' \<in> set (rmatch ci b st'')"
    by auto
  from Seq.prems(1) have "consumes a \<or> consumes b" by simp
  then show ?case
  proof
    assume "consumes a"
    then have "rest_len st'' < rest_len st" using Seq.IH(1) m(1) by blast
    moreover have "rest_len st' \<le> rest_len st''" using m(2) by (rule rmatch_rest_le)
    ultimately show ?thesis by simp
  next
    assume "consumes b"
    then have "rest_len st' < rest_len st''" using Seq.IH(2) m(2) by blast
    moreover have "rest_len st'' \<le> rest_len st" using m(1) by (rule rmatch_rest_le)
    ultimately show ?thesis by simp
  qed
next
  case (Grp i a)
  then obtain s where s: "s \<in> set (rmatch ci a st)" "st' = capture i st s" by auto
  have "rest_len (capture i st s) = rest_len s"
    by (cases s) (simp add: capture_def rest_len_def)
  moreover have "rest_len s < rest_len st" using Grp s(1) by simp
  ultimately show ?case using s(2) by simp
qed (auto intro: step_if_progress)

lemma mk_found_reaches:
  assumes "reaches P (p, x, c) st"
  shows "\<exists>w. x = w @ after_rest (mk_found p st) \<and> whole (mk_found p st) = w
             \<and> after_prev (mk_found p st) = rev w @ p \<and> list_all P w
             \<and> groups (mk_found p st) = snd (snd st) \<and> after_rest (mk_found p st) = fst (snd st)"
proof -
  obtain p' x' c' where st: "st = (p', x', c')" by (cases st)
  from assms st obtain w where w: "p' = rev w @ p" "x = w @ x'" "list_all P w"
    by (auto simp: reaches_def)
  then show ?thesis by (simp add: mk_found_def st)
qed

lemma search_sound:
  assumes "chars_sat P ci r" and "search ci r p x = Some f"
  shows "\<exists>s w st. x = s @ w @ after_rest f \<and> whole f = w \<and> after_prev f = rev w @ rev s @ p
                \<and> list_all P w
                \<and> st \<in> set (rmatch ci r (rev s @ p, w @ after_rest f, [])) \<and> groups f = snd (snd st)
                \<and> after_rest f = fst (snd st)"
  using assms(2)
proof (induction x arbitrary: p)
  case Nil
  then obtain st sts where m: "rmatch ci r (p, [], []) = st # sts" and f: "f = mk_found p st"
    by (auto split: list.splits)
  then have "reaches P (p, [], []) st"
    using rmatch_reaches [OF assms(1)] by (metis list.set_intros(1))
  from mk_found_reaches [OF this] obtain w where
    w: "[] = w @ after_rest f" "whole f = w" "after_prev f = rev w @ p" "list_all P w"
       "groups f = snd (snd st)" "after_rest f = fst (snd st)"
    using f by blast
  have "st \<in> set (rmatch ci r (rev [] @ p, w @ after_rest f, []))"
    using m w(1) by simp
  with w show ?case by (metis append_Nil rev.simps(1))
next
  case (Cons c cs)
  show ?case
  proof (cases "rmatch ci r (p, c # cs, [])")
    case Nil
    with Cons.prems have "search ci r (c # p) cs = Some f" by simp
    from Cons.IH [OF this] obtain s w st where
      "cs = s @ w @ after_rest f" "whole f = w" "after_prev f = rev w @ rev s @ c # p" "list_all P w"
      "st \<in> set (rmatch ci r (rev s @ c # p, w @ after_rest f, []))" "groups f = snd (snd st)"
      "after_rest f = fst (snd st)"
      by blast
    then show ?thesis
      by (intro exI [of _ "c # s"] exI [of _ w] exI [of _ st]) simp
  next
    case (Cons st sts)
    with Cons.prems have f: "f = mk_found p st" by simp
    have "reaches P (p, c # cs, []) st"
      using rmatch_reaches [OF assms(1)] Cons by (metis list.set_intros(1))
    from mk_found_reaches [OF this] obtain w where
      w: "c # cs = w @ after_rest f" "whole f = w" "after_prev f = rev w @ p" "list_all P w"
         "groups f = snd (snd st)" "after_rest f = fst (snd st)"
      using f by blast
    have "st \<in> set (rmatch ci r (rev [] @ p, w @ after_rest f, []))"
      using Cons w(1) by simp
    with w show ?thesis by (metis append_Nil rev.simps(1))
  qed
qed

lemma search_progress:
  assumes "consumes r" and "search ci r p x = Some f"
  shows "whole f \<noteq> [] \<and> length (after_rest f) < length x"
proof -
  from search_sound [OF chars_sat_True assms(2)] obtain s w st where
    x: "x = s @ w @ after_rest f" and w: "whole f = w"
    and st: "st \<in> set (rmatch ci r (rev s @ p, w @ after_rest f, []))"
    and ar: "after_rest f = fst (snd st)"
    by blast
  have "rest_len st < length (w @ after_rest f)"
    using rmatch_progress [OF assms(1) st] by (simp add: rest_len_def)
  then have "w \<noteq> []" using ar by (auto simp: rest_len_def)
  then show ?thesis using x w by simp
qed

text \<open>
  The equations of the two loops rewrite their own right-hand sides; they are used by
  instance only.
\<close>

declare exec_loop.simps [simp del] match_all.simps [simp del]

lemma exec_loop_total: "consumes r \<Longrightarrow> \<exists>fs. exec_loop ci r p x = Some fs"
proof (induction ci r p x rule: exec_loop.induct)
  case (1 ci r p x)
  show ?case
  proof (cases "search ci r p x")
    case None
    then show ?thesis by (subst exec_loop.simps) simp
  next
    case (Some f)
    from search_progress [OF "1.prems" Some]
    have g: "whole f \<noteq> [] \<and> length (after_rest f) < length x" .
    from "1.IH" [OF Some g "1.prems"]
    obtain fs where "exec_loop ci r (after_prev f) (after_rest f) = Some fs" by blast
    then show ?thesis using Some g by (subst exec_loop.simps) simp
  qed
qed

lemma exec_loop_all:
  "(\<And>p x f. search ci r p x = Some f \<Longrightarrow> Q f) \<Longrightarrow> exec_loop ci r p x = Some fs \<Longrightarrow> list_all Q fs"
proof (induction ci r p x arbitrary: fs rule: exec_loop.induct)
  case (1 ci r p x)
  show ?case
  proof (cases "search ci r p x")
    case None
    with "1.prems"(2) have "fs = []" by (subst (asm) exec_loop.simps) simp
    then show ?thesis by simp
  next
    case (Some f)
    from "1.prems"(2) Some
    have g: "whole f \<noteq> [] \<and> length (after_rest f) < length x"
      by (subst (asm) exec_loop.simps) (simp split: if_splits)
    from "1.prems"(2) Some g
    obtain fs' where fs': "exec_loop ci r (after_prev f) (after_rest f) = Some fs'" "fs = f # fs'"
      by (subst (asm) exec_loop.simps) (auto split: option.splits)
    have "list_all Q fs'" using "1.IH" [OF Some g "1.prems"(1) fs'(1)] .
    moreover have "Q f" using "1.prems"(1) Some .
    ultimately show ?thesis using fs'(2) by simp
  qed
qed

lemma match_all_all:
  "(\<And>p x f. search ci r p x = Some f \<Longrightarrow> Q (whole f)) \<Longrightarrow> list_all Q (match_all ci r p x)"
proof (induction ci r p x rule: match_all.induct)
  case (1 ci r p x)
  show ?case
  proof (cases "search ci r p x")
    case None
    then show ?thesis by (auto simp add: match_all.simps [of ci r p x])
  next
    case (Some f)
    have q: "Q (whole f)" using "1.prems" Some .
    show ?thesis
    proof (cases "whole f \<noteq> [] \<and> length (after_rest f) < length x")
      case True
      have "list_all Q (match_all ci r (after_prev f) (after_rest f))"
        using "1.IH"(1) [OF Some True "1.prems"] .
      then show ?thesis using Some True q by (auto simp add: match_all.simps [of ci r p x])
    next
      case False
      show ?thesis
      proof (cases "after_rest f")
        case Nil
        then show ?thesis using Some False q by (auto simp add: match_all.simps [of ci r p x])
      next
        case (Cons c cs)
        show ?thesis
        proof (cases "length cs < length x")
          case True
          have "list_all Q (match_all ci r (c # after_prev f) cs)"
            using "1.IH"(2) [OF Some False Cons True "1.prems"] .
          then show ?thesis using Some False Cons True q by (auto simp add: match_all.simps [of ci r p x])
        next
          case F: False
          then show ?thesis using Some False Cons q by (auto simp add: match_all.simps [of ci r p x])
        qed
      qed
    qed
  qed
qed

lemma star_iter_bound:
  assumes f: "\<And>a b. b \<in> set (f a) \<Longrightarrow> bound a \<subseteq> bound b"
  shows "st' \<in> set (star_iter n f st) \<Longrightarrow> bound st \<subseteq> bound st'"
proof (induction n arbitrary: st)
  case 0
  then show ?case by simp
next
  case (Suc n)
  from Suc.prems consider "st' = st"
    | st'' where "st'' \<in> set (f st)" "st' \<in> set (star_iter n f st'')"
    by auto
  then show ?case
  proof cases
    case 1
    then show ?thesis by simp
  next
    case 2
    then show ?thesis using f Suc.IH by blast
  qed
qed

lemma step_if_bound: "st' \<in> set (step_if Q st) \<Longrightarrow> bound st' = bound st"
  by (cases st) (auto simp: step_if_def bound_def split: list.splits if_splits)

lemma rmatch_bound_mono: "st' \<in> set (rmatch ci r st) \<Longrightarrow> bound st \<subseteq> bound st'"
proof (induction r arbitrary: st st')
  case (Seq a b)
  then obtain st'' where "st'' \<in> set (rmatch ci a st)" "st' \<in> set (rmatch ci b st'')"
    by auto
  with Seq show ?case by blast
next
  case (Star a)
  then show ?case using star_iter_bound [of "rmatch ci a"] by auto
next
  case (Grp i a)
  then obtain s where s: "s \<in> set (rmatch ci a st)" "st' = capture i st s" by auto
  have "bound (capture i st s) = insert i (bound s)"
    by (cases s) (simp add: capture_def bound_def)
  then show ?case using Grp.IH [OF s(1)] s(2) by auto
next
  case (Alt a b)
  from Alt.prems have "st' \<in> set (rmatch ci a st) \<or> st' \<in> set (rmatch ci b st)" by simp
  then show ?case using Alt.IH by blast
qed (auto simp: step_if_bound split: if_splits)

lemma rmatch_binds: "binds i r \<Longrightarrow> st' \<in> set (rmatch ci r st) \<Longrightarrow> i \<in> bound st'"
proof (induction r arbitrary: st st')
  case (Seq a b)
  then obtain st'' where m: "st'' \<in> set (rmatch ci a st)" "st' \<in> set (rmatch ci b st'')"
    by auto
  from Seq.prems(1) have "binds i a \<or> binds i b" by simp
  then show ?case
  proof
    assume "binds i a"
    then have "i \<in> bound st''" using Seq.IH(1) m(1) by blast
    then show ?thesis using rmatch_bound_mono [OF m(2)] by blast
  next
    assume "binds i b"
    then show ?thesis using Seq.IH(2) m(2) by blast
  qed
next
  case (Grp j a)
  then obtain s where s: "s \<in> set (rmatch ci a st)" "st' = capture j st s" by auto
  have b: "bound (capture j st s) = insert j (bound s)"
    by (cases s) (simp add: capture_def bound_def)
  from Grp.prems(1) have "i = j \<or> binds i a" by simp
  then show ?case
  proof
    assume "i = j"
    then show ?thesis using s(2) b by simp
  next
    assume "binds i a"
    then have "i \<in> bound s" using Grp.IH s(1) by blast
    then show ?thesis using s(2) b by simp
  qed
next
  case (Alt a b)
  from Alt.prems have "binds i a" "binds i b"
    and "st' \<in> set (rmatch ci a st) \<or> st' \<in> set (rmatch ci b st)" by simp_all
  then show ?case using Alt.IH by blast
qed auto

lemma search_binds:
  assumes "binds i r" and "search ci r p x = Some f"
  shows "\<exists>s. match_group i f = Some s"
proof -
  from search_sound [OF chars_sat_True assms(2)] obtain s w st where
    st: "st \<in> set (rmatch ci r (rev s @ p, w @ after_rest f, []))" and g: "groups f = snd (snd st)"
    by blast
  have "i \<in> bound st" using rmatch_binds [OF assms(1) st] .
  then have "map_of (groups f) i \<noteq> None"
    using g by (simp add: bound_def map_of_eq_None_iff)
  then show ?thesis by (auto simp: match_group_def)
qed

section \<open>The rule-based extractor returns\<close>

text \<open>
  Every pattern of the two tables takes a character, and every relationship pattern sets
  both groups: no \<open>exec\<close> loop runs forever and no group is read undefined.
\<close>

lemma consumes_Plus [simp]: "consumes (Plus r) = consumes r"
  by (simp add: Plus_def)

lemma ENTITY_PATTERNS_consume:
  "list_all (\<lambda>(t, pats). list_all (\<lambda>(ci, r). consumes r) pats) ENTITY_PATTERNS"
  by code_simp

lemma RELATIONSHIP_PATTERNS_ok:
  "list_all (\<lambda>(r, t, c). consumes r \<and> binds 1 r \<and> binds 2 r) RELATIONSHIP_PATTERNS"
  by code_simp

lemma scan_patterns_total:
  "list_all (\<lambda>(ci, r). consumes r) pats \<Longrightarrow> \<exists>a'. scan_patterns text ty pats a = Some a'"
proof (induction pats arbitrary: a)
  case Nil
  then show ?case by simp
next
  case (Cons pat pats)
  then have "consumes (snd pat)" by (cases pat) simp
  then obtain ms where "exec_loop (fst pat) (snd pat) [] text = Some ms"
    using exec_loop_total by blast
  then show ?case using Cons by simp
qed

lemma scan_groups_total:
  "list_all (\<lambda>(t, pats). list_all (\<lambda>(ci, r). consumes r) pats) grps \<Longrightarrow>
   \<exists>a'. scan_groups text grps a = Some a'"
proof (induction grps arbitrary: a)
  case Nil
  then show ?case by simp
next
  case (Cons grp grps)
  then have "list_all (\<lambda>(ci, r). consumes r) (snd grp)" by (cases grp) simp
  then obtain a' where "scan_patterns text (fst grp) (snd grp) a = Some a'"
    using scan_patterns_total by blast
  then show ?case using Cons by simp
qed

lemma extractEntities_total: "\<exists>ents. extractEntities text = Some ents"
proof -
  obtain a where "scan_groups text ENTITY_PATTERNS ([], []) = Some a"
    using scan_groups_total [OF ENTITY_PATTERNS_consume] by blast
  then show ?thesis by (simp add: extractEntities_def Let_def)
qed

lemma collect_total: "list_all (\<lambda>x. \<exists>ys. f x = Some ys) xs \<Longrightarrow> \<exists>zs. collect f xs = Some zs"
  by (induction xs) auto

lemma relationship_of_match_total:
  assumes "\<exists>s. match_group 1 m = Some s" and "\<exists>s. match_group 2 m = Some s"
  shows "\<exists>rs. relationship_of_match labels t c m = Some rs"
  using assms by (auto simp: relationship_of_match_def Let_def)

lemma pattern_relationships_total:
  assumes "consumes (fst pat)" "binds 1 (fst pat)" "binds 2 (fst pat)"
  shows "\<exists>rs. pattern_relationships text labels pat = Some rs"
proof -
  obtain ms where ms: "exec_loop True (fst pat) [] text = Some ms"
    using exec_loop_total [OF assms(1)] by blast
  have "list_all (\<lambda>f. (\<exists>s. match_group 1 f = Some s) \<and> (\<exists>s. match_group 2 f = Some s)) ms"
  proof (rule exec_loop_all [OF _ ms])
    fix p x f
    assume "search True (fst pat) p x = Some f"
    then show "(\<exists>s. match_group 1 f = Some s) \<and> (\<exists>s. match_group 2 f = Some s)"
      using search_binds [OF assms(2)] search_binds [OF assms(3)] by blast
  qed
  then have "list_all (\<lambda>m. \<exists>rs. relationship_of_match labels (fst (snd pat)) (snd (snd pat)) m = Some rs) ms"
    by (simp add: list_all_iff relationship_of_match_total)
  from collect_total [OF this] show ?thesis using ms by (simp add: pattern_relationships_def)
qed

lemma extractRelationships_total: "\<exists>rels. extractRelationships text ents = Some rels"
proof -
  have "list_all (\<lambda>pat. \<exists>ys. pattern_relationships text (map (\<lambda>e. toLowerCase (e_label e)) ents) pat = Some ys)
          RELATIONSHIP_PATTERNS"
    using RELATIONSHIP_PATTERNS_ok
    by (rule list.pred_mono_strong) (auto intro: pattern_relationships_total)
  from collect_total [OF this] show ?thesis by (simp add: extractRelationships_def)
qed

lemma local_total: "\<exists>res. local_extractEntitiesAndRelationships text = Some res"
proof -
  obtain ents where e: "extractEntities text = Some ents" using extractEntities_total by blast
  obtain rels where "extractRelationships text ents = Some rels"
    using extractRelationships_total by blast
  with e show ?thesis by (simp add: local_extractEntitiesAndRelationships_def)
qed

lemma hybrid_total: "\<exists>res. hybrid_extractEntitiesAndRelationships env text = Some res"
proof -
  obtain l where "local_extractEntitiesAndRelationships text = Some l" using local_total by blast
  then show ?thesis
    by (auto simp: hybrid_extractEntitiesAndRelationships_def local_fallback_def split: option.splits)
qed

section \<open>Labels of extracted entities\<close>

lemma dropWhile_tight_front: "dropWhile is_space s \<noteq> [] \<Longrightarrow> \<not> is_space (hd (dropWhile is_space s))"
  by (simp add: hd_dropWhile)

lemma tight_trim: "tight (trim s)"
proof (cases "trim s = []")
  case True
  then show ?thesis by (simp add: tight_def)
next
  case False
  let ?a = "dropWhile is_space s"
  let ?b = "dropWhile is_space (rev ?a)"
  have t: "trim s = rev ?b" by (simp add: trim_def)
  with False have b: "?b \<noteq> []" by simp
  then have hb: "\<not> is_space (hd ?b)" by (simp add: hd_dropWhile)
  have l: "last (trim s) = hd ?b" using b t by (simp add: last_rev)
  have "?a \<noteq> []" using b by (metis dropWhile.simps(1) rev.simps(1))
  then have ha: "\<not> is_space (hd ?a)" by (simp add: hd_dropWhile)
  have "last (rev ?a) = last ?b" using b by (metis last_appendR takeWhile_dropWhile_id)
  then have "hd ?a = last ?b" using \<open>?a \<noteq> []\<close> by (simp add: last_rev)
  then have "hd (trim s) = hd ?a" using t b by (simp add: hd_rev)
  with ha hb l False show ?thesis by (simp add: tight_def)
qed

lemma trim_tight: "tight s \<Longrightarrow> trim s = s"
proof (cases s)
  case Nil
  then show ?thesis by (simp add: trim_def)
next
  case (Cons c cs)
  assume "tight s"
  with Cons have a: "\<not> is_space (hd s)" and b: "\<not> is_space (last s)" by (auto simp: tight_def)
  have "dropWhile is_space s = s" using a Cons by simp
  moreover have "dropWhile is_space (rev s) = rev s"
    using b Cons by (metis dropWhile_eq_self_iff hd_rev)
  ultimately show ?thesis by (simp add: trim_def)
qed

lemma space_lower_char: "is_space (lower_char c) = is_space c"
  by (cases c) (auto simp: lower_char_code is_space_code is_upper_code)

lemma space_upper_char: "is_space (upper_char c) = is_space c"
  by (cases c) (auto simp: upper_char_code is_space_code is_lower_code)

lemma letter_not_space: "is_upper c \<or> is_lower c \<Longrightarrow> \<not> is_space c"
  by (cases c) (auto simp: is_space_code is_lower_code is_upper_code)

lemma lower_upper_char: "lower_char (upper_char c) = lower_char c"
  by (cases c) (auto simp: upper_char_code lower_char_code is_lower_code is_upper_code)

lemma lower_lower_char: "lower_char (lower_char c) = lower_char c"
  by (cases c) (auto simp: lower_char_code is_upper_code)

lemma toLowerCase_idem: "toLowerCase (toLowerCase s) = toLowerCase s"
  by (simp add: toLowerCase_def lower_lower_char)

lemma toLowerCase_capitalizeFirst: "toLowerCase (capitalizeFirst s) = toLowerCase s"
  by (cases s) (simp_all add: capitalizeFirst_def toLowerCase_def lower_upper_char lower_lower_char)

lemma length_toLowerCase: "length (toLowerCase s) = length s"
  by (simp add: toLowerCase_def)

lemma tight_toLowerCase: "tight (toLowerCase s) = tight s"
  by (cases s rule: rev_cases)
     (auto simp: tight_def toLowerCase_def hd_map last_map space_lower_char hd_append split: if_splits)

lemma trim_toLowerCase_trim: "trim (toLowerCase (trim s)) = toLowerCase (trim s)"
  by (simp add: trim_tight tight_toLowerCase tight_trim)

lemma letters_tight: "list_all (\<lambda>c. is_upper c \<or> is_lower c) w \<Longrightarrow> tight w"
proof (cases w)
  case Nil
  then show ?thesis by (simp add: tight_def)
next
  case (Cons c cs)
  assume a: "list_all (\<lambda>c. is_upper c \<or> is_lower c) w"
  have "hd w \<in> set w" "last w \<in> set w" using Cons by simp_all
  with a have "is_upper (hd w) \<or> is_lower (hd w)" "is_upper (last w) \<or> is_lower (last w)"
    by (auto simp: list_all_iff)
  then show ?thesis using letter_not_space by (simp add: tight_def)
qed

lemma pattern_label_ok:
  assumes "1 < length (toLowerCase (trim l))"
  shows "label_ok (capitalizeFirst (trim l))"
  using assms by (simp add: label_ok_def toLowerCase_capitalizeFirst trim_toLowerCase_trim)

lemma claim_pattern_match_ok:
  assumes "list_all (\<lambda>e. label_ok (e_label e)) (fst a)"
  shows "list_all (\<lambda>e. label_ok (e_label e)) (fst (claim_pattern_match text ty m a))"
  using assms by (auto simp: claim_pattern_match_def Let_def pattern_label_ok)

lemma fold_claim_pattern_match_ok:
  "list_all (\<lambda>e. label_ok (e_label e)) (fst a) \<Longrightarrow>
   list_all (\<lambda>e. label_ok (e_label e)) (fst (fold (claim_pattern_match text ty) ms a))"
  by (induction ms arbitrary: a) (simp_all add: claim_pattern_match_ok)

lemma scan_patterns_ok:
  "scan_patterns text ty pats a = Some a' \<Longrightarrow>
   list_all (\<lambda>e. label_ok (e_label e)) (fst a) \<Longrightarrow>
   list_all (\<lambda>e. label_ok (e_label e)) (fst a')"
proof (induction pats arbitrary: a)
  case Nil
  then show ?case by simp
next
  case (Cons pat pats)
  from Cons.prems(1) obtain ms where
    ms: "exec_loop (fst pat) (snd pat) [] text = Some ms"
    and r: "scan_patterns text ty pats (fold (claim_pattern_match text ty) ms a) = Some a'"
    by (auto split: option.splits)
  show ?case
    using Cons.IH [OF r fold_claim_pattern_match_ok [OF Cons.prems(2)]] .
qed

lemma scan_groups_ok:
  "scan_groups text grps a = Some a' \<Longrightarrow>
   list_all (\<lambda>e. label_ok (e_label e)) (fst a) \<Longrightarrow>
   list_all (\<lambda>e. label_ok (e_label e)) (fst a')"
proof (induction grps arbitrary: a)
  case Nil
  then show ?case by simp
next
  case (Cons grp grps)
  from Cons.prems(1) obtain b where
    b: "scan_patterns text (fst grp) (snd grp) a = Some b" and r: "scan_groups text grps b = Some a'"
    by (auto split: option.splits)
  show ?case
    using Cons.IH [OF r scan_patterns_ok [OF b Cons.prems(2)]] .
qed

lemma capitalized_label_ok:
  assumes "list_all (\<lambda>c. is_upper c \<or> is_lower c) word" and "2 < length word"
  shows "label_ok word"
proof -
  have "tight (toLowerCase word)" using letters_tight [OF assms(1)] by (simp add: tight_toLowerCase)
  then show ?thesis using assms(2) by (simp add: label_ok_def trim_tight length_toLowerCase)
qed

lemma claim_capitalized_ok:
  assumes "list_all (\<lambda>c. is_upper c \<or> is_lower c) word"
    and "list_all (\<lambda>e. label_ok (e_label e)) (fst a)"
  shows "list_all (\<lambda>e. label_ok (e_label e)) (fst (claim_capitalized text word a))"
  using assms by (auto simp: claim_capitalized_def Let_def capitalized_label_ok)

lemma fold_claim_capitalized_ok:
  "list_all (list_all (\<lambda>c. is_upper c \<or> is_lower c)) ws \<Longrightarrow>
   list_all (\<lambda>e. label_ok (e_label e)) (fst a) \<Longrightarrow>
   list_all (\<lambda>e. label_ok (e_label e)) (fst (fold (claim_capitalized text) ws a))"
  by (induction ws arbitrary: a) (simp_all add: claim_capitalized_ok)

lemma likely_noun_ok: "isLikelyNoun noun \<Longrightarrow> label_ok (capitalizeFirst noun)"
  by (auto simp: label_ok_def toLowerCase_capitalizeFirst isLikelyNoun_def trim_def is_space_code)

lemma claim_noun_ok:
  assumes "list_all (\<lambda>e. label_ok (e_label e)) (fst a)"
  shows "list_all (\<lambda>e. label_ok (e_label e)) (fst (claim_noun text noun a))"
  using assms by (auto simp: claim_noun_def likely_noun_ok)

lemma fold_claim_noun_ok:
  "list_all (\<lambda>e. label_ok (e_label e)) (fst a) \<Longrightarrow>
   list_all (\<lambda>e. label_ok (e_label e)) (fst (fold (claim_noun text) ws a))"
  by (induction ws arbitrary: a) (simp_all add: claim_noun_ok)

lemma capitalized_words_letters:
  "list_all (list_all (\<lambda>c. is_upper c \<or> is_lower c))
     (match_all False (Seqs [Bnd, Cls Upper, Plus (Cls Lower), Bnd]) p x)"
proof (rule match_all_all)
  fix p x f
  assume s: "search False (Seqs [Bnd, Cls Upper, Plus (Cls Lower), Bnd]) p x = Some f"
  have "chars_sat (\<lambda>c. is_upper c \<or> is_lower c) False (Seqs [Bnd, Cls Upper, Plus (Cls Lower), Bnd])"
    by (simp add: Seqs_def Plus_def cls_match_def)
  from search_sound [OF this s] show "list_all (\<lambda>c. is_upper c \<or> is_lower c) (whole f)"
    by blast
qed

lemma extractEntities_ok:
  assumes "extractEntities text = Some ents"
  shows "list_all (\<lambda>e. label_ok (e_label e)) ents"
proof -
  from assms obtain a where a: "scan_groups text ENTITY_PATTERNS ([], []) = Some a"
    by (auto simp: extractEntities_def split: option.splits)
  have "list_all (\<lambda>e. label_ok (e_label e)) (fst a)"
    using scan_groups_ok [OF a] by simp
  then show ?thesis
    using assms a
    by (auto simp: extractEntities_def Let_def
        intro!: fold_claim_noun_ok fold_claim_capitalized_ok capitalized_words_letters)
qed

lemma set_dedup_entities: "set (dedup_entities seen es) \<subseteq> set es"
  by (induction es arbitrary: seen) (auto simp: Let_def)

lemma set_local_filterEntities: "set (local_filterEntities ents) \<subseteq> set ents"
  using set_dedup_entities by (simp add: local_filterEntities_def sort_by_confidence_def)

lemma upper_to_lower: "is_upper c \<Longrightarrow> is_lower (lower_char c)"
  by (cases c) (auto simp: lower_char_code is_upper_code is_lower_code)

lemma single_letter_generic:
  assumes "is_upper c \<or> is_lower c" and "e_label e = [c]"
  shows "isVeryGenericEntity e"
proof -
  have "cls_match True Lower c" using assms(1) upper_to_lower by (auto simp: cls_match_def)
  then have "test True (Seqs [Bol, Cls Lower, Eol]) [c]"
    by (simp add: test_def Seqs_def step_if_def)
  then show ?thesis using assms(2)
    by (simp add: isVeryGenericEntity_def veryGenericPatterns_def)
qed

lemma gemini_dedup_kept:
  "e \<in> set (gemini_dedup seen ents) \<Longrightarrow>
   0 < length (trim (toLowerCase (e_label e))) \<and> \<not> isVeryGenericEntity e"
  by (induction seen ents rule: gemini_dedup.induct) (auto simp: Let_def split: if_splits)

lemma gemini_entities_kept:
  assumes "e \<in> set (gemini_filterEntities raw)"
  shows "0 < length (trim (toLowerCase (e_label e))) \<and> (\<forall>c. e_label e = [c] \<longrightarrow> \<not> is_upper c \<and> \<not> is_lower c)"
proof -
  from assms have "e \<in> set (gemini_dedup [] raw)"
    by (simp add: gemini_filterEntities_def sort_by_confidence_def)
  from gemini_dedup_kept [OF this] show ?thesis using single_letter_generic by blast
qed

lemma local_entities_kept:
  assumes "local_extractEntitiesAndRelationships text = Some res" and "e \<in> set (entities res)"
  shows "1 < length (trim (toLowerCase (e_label e)))"
proof -
  from assms(1) obtain ents where ents: "extractEntities text = Some ents"
    and res: "entities res = local_filterEntities ents"
    by (auto simp: local_extractEntitiesAndRelationships_def split: option.splits)
  from assms(2) res have "e \<in> set ents" using set_local_filterEntities [of ents] by auto
  with extractEntities_ok [OF ents] show ?thesis by (simp add: list_all_iff label_ok_def)
qed

section \<open>The two sample texts\<close>

lemma local_john:
  "local_extractEntitiesAndRelationships ''John likes Mary.'' =
     Some \<lparr>entities =
             [\<lparr>e_label = ''John'', e_type = ''PERSON'',
               e_properties = [(''context'', PStr ''John likes Mary.''), (''extractedBy'', PStr ''local-nlp'')],
               e_confidence = 0.85, e_aliases = Some []\<rparr>,
              \<lparr>e_label = ''Mary'', e_type = ''PERSON'',
               e_properties = [(''context'', PStr ''John likes Mary.''), (''extractedBy'', PStr ''local-nlp'')],
               e_confidence = 0.85, e_aliases = Some []\<rparr>],
           relationships =
             [\<lparr>r_source = ''John'', r_target = ''Mary'', r_type = ''LIKES'',
               r_properties = [(''extractedBy'', PStr ''local-nlp''), (''originalMatch'', PStr ''John likes Mary'')],
               r_confidence = 0.9, r_context = ''John likes Mary''\<rparr>]\<rparr>"
  by code_simp

lemma local_sample:
  "map_option (\<lambda>res. (entity_view res, relationship_view res)) (local_extractEntitiesAndRelationships sample_text) =
     Some ([(''Apple'', ''PERSON''), (''Steve jobs'', ''PERSON''), (''Elon musk'', ''PERSON''),
            (''Tesla'', ''PERSON''), (''Steve'', ''CONCEPT''), (''Jobs'', ''CONCEPT''),
            (''Elon'', ''CONCEPT''), (''Musk'', ''CONCEPT'')],
           [(''Musk'', ''OWNS'', ''Tesla'')])"
  by code_simp

section \<open>Properties of the store operations\<close>

lemma get_set_prop: "get_prop (set_prop k v ps) k' = (if k' = k then v else get_prop ps k')"
  by (simp add: get_prop_def set_prop_def AList.update_conv' AList.delete_conv')

lemma get_prop_Cons: "get_prop ((a, b) # m) k = (if k = a then b else get_prop m k)"
  by (simp add: get_prop_def)

lemma get_add_props:
  "get_prop (add_props m ps) k = (if k \<in> fst ` set m then get_prop m k else get_prop ps k)"
proof (induction m)
  case Nil
  then show ?case by (simp add: add_props_def)
next
  case (Cons x m)
  obtain a b where x: "x = (a, b)" by (cases x)
  have "add_props (x # m) ps = set_prop a b (add_props m ps)"
    by (simp add: add_props_def x)
  then show ?case using Cons by (auto simp: get_set_prop get_prop_Cons x)
qed

lemma cypher_ident_chars: "cypher_ident t \<Longrightarrow> list_all ident_char t"
  by (cases t) (auto simp: cypher_ident_def ident_char_def)

lemma read_type_ident: "cypher_ident t \<Longrightarrow> read_type t = Spliced t VarB"
proof -
  assume t: "cypher_ident t"
  then have c: "\<forall>c \<in> set t. ident_char c" using cypher_ident_chars by (simp add: list_all_iff)
  have tw: "takeWhile ident_char t = t" using c by (simp add: takeWhile_eq_all_conv)
  have dw: "dropWhile ident_char t = []" using c by simp
  show ?thesis unfolding read_type_def Let_def tw dw using t by simp
qed

lemma findRelationship_ident:
  "cypher_ident t \<Longrightarrow>
   findRelationship g i j t = find (\<lambda>e. etype e = t \<and> esrc e = i \<and> etgt e = j) (gedges g)"
proof -
  assume t: "cypher_ident t"
  have "map_option (\<lambda>e. e\<lparr>etype := t\<rparr>) (find (\<lambda>e. etype e = t \<and> esrc e = i \<and> etgt e = j) xs)
        = find (\<lambda>e. etype e = t \<and> esrc e = i \<and> etgt e = j) xs" for xs :: "edge list"
    by (induction xs) auto
  with t show ?thesis by (simp add: findRelationship_def read_type_ident)
qed


lemma existing_edge_returned:
  assumes "findEntityByLabelAndType g sourceLabel sourceType = Some sourceEntity"
    and "findEntityByLabelAndType g targetLabel targetType = Some targetEntity"
    and "findRelationship g (nid sourceEntity) (nid targetEntity) relationshipType = Some r"
  shows "createRelationshipWithValidation g sourceLabel targetLabel sourceType targetType
           relationshipType properties now = (g, Some r)"
  using assms by (simp add: createRelationshipWithValidation_def)

lemma on_create_label:
  assumes "''label'' \<notin> fst ` set (ne_properties e)"
  shows "exact_match (ne_label e) (ne_type e) (on_create e now i)"
  using assms by (simp add: exact_match_def on_create_def get_add_props get_set_prop get_prop_Cons)

lemma on_match_label:
  assumes "''label'' \<notin> fst ` set (ne_properties e)"
  shows "exact_match l t (on_match e now n) = exact_match l t n"
  using assms by (simp add: exact_match_def on_match_def get_add_props get_set_prop)

lemma on_create_confidence:
  assumes "''confidence'' \<notin> fst ` set (ne_properties e)"
  shows "get_prop (nprops (on_create e now i)) ''confidence'' = PNum (confidence_param (ne_confidence e))"
  using assms by (simp add: on_create_def get_add_props get_set_prop get_prop_Cons)

lemma on_match_confidence:
  assumes "''confidence'' \<notin> fst ` set (ne_properties e)"
  shows "get_prop (nprops (on_match e now n)) ''confidence''
         = merged_confidence (get_prop (nprops n) ''confidence'') (confidence_param (ne_confidence e))"
  using assms by (simp add: on_match_def get_add_props get_set_prop)

lemma upsert_new:
  assumes "stored_with g (ne_label e) (ne_type e) = []"
    and "createEntityWithMerge g e now = Inr (g', n')"
  shows "n' = on_create e now (fresh_id (map nid (gnodes g)))" and "gnodes g' = gnodes g @ [n']"
  using assms by (auto simp: createEntityWithMerge_def stored_with_def Let_def split: if_splits)

lemma upsert_existing:
  assumes "stored_with g (ne_label e) (ne_type e) = m # ms"
    and "createEntityWithMerge g e now = Inr (g', n')"
  shows "n' = on_match e now m"
    and "gnodes g' = map (\<lambda>n. if exact_match (ne_label e) (ne_type e) n then on_match e now n else n) (gnodes g)"
  using assms by (auto simp: createEntityWithMerge_def stored_with_def Let_def split: if_splits)

lemma filter_map_fixed:
  assumes "\<And>x. x \<in> set xs \<Longrightarrow> P (f x) = P x"
  shows "filter P (map f xs) = map f (filter P xs)"
  using assms by (induction xs) auto

lemma alias_values_merged:
  "alias_values (merged_aliases old as) = alias_values old \<union> PStr ` set as"
  by (cases old) (auto simp: alias_values_def merged_aliases_def)

lemma Inr_projr: "\<not> isl r \<Longrightarrow> r = Inr (fst (projr r), snd (projr r))"
  by (cases r) auto

section \<open>Entity upsert\<close>

text \<open>
  C1. For candidates whose confidence is given and is not zero and whose property bag has
  no key \<open>label\<close> or \<open>confidence\<close>: two accepted upserts of the same label and type into a
  store that does not hold that entity yet leave exactly one stored entity with that label
  and type, the one returned both times, and after the second upsert its confidence is the
  maximum of the stored and the incoming one.
\<close>

theorem upsert_twice_one_entity:
  assumes fresh: "stored_with g l t = []"
    and ea: "ne_label ea = l" "ne_type ea = t" "ne_confidence ea = Some ca" "ca \<noteq> 0"
    and eb: "ne_label eb = l" "ne_type eb = t" "ne_confidence eb = Some cb" "cb \<noteq> 0"
    and ka: "''label'' \<notin> fst ` set (ne_properties ea)" "''confidence'' \<notin> fst ` set (ne_properties ea)"
    and kb: "''label'' \<notin> fst ` set (ne_properties eb)" "''confidence'' \<notin> fst ` set (ne_properties eb)"
    and ua: "createEntityWithMerge g ea ta = Inr (ga, na)"
    and ub: "createEntityWithMerge ga eb tb = Inr (gb, nb)"
  shows "stored_with gb l t = [nb] \<and> nid nb = nid na
         \<and> get_prop (nprops na) ''confidence'' = PNum ca
         \<and> get_prop (nprops nb) ''confidence'' = PNum (max ca cb)"
proof -
  from fresh ea have fa: "stored_with g (ne_label ea) (ne_type ea) = []" by simp
  note na = upsert_new [OF fa ua]
  have ma: "exact_match l t na"
    using on_create_label [OF ka(1)] na(1) ea by simp
  have sa: "stored_with ga l t = [na]"
    using fresh ma na(2) by (simp add: stored_with_def)
  then have sa': "stored_with ga (ne_label eb) (ne_type eb) = na # []" using eb by simp
  note nb = upsert_existing [OF sa' ub]
  have "stored_with gb l t = map (on_match eb tb) (stored_with ga l t)"
  proof -
    have "filter (exact_match l t) (map (\<lambda>n. if exact_match l t n then on_match eb tb n else n) (gnodes ga))
          = map (\<lambda>n. if exact_match l t n then on_match eb tb n else n) (filter (exact_match l t) (gnodes ga))"
      by (rule filter_map_fixed) (simp add: on_match_label [OF kb(1)])
    also have "\<dots> = map (on_match eb tb) (filter (exact_match l t) (gnodes ga))"
      by (rule map_cong) auto
    finally show ?thesis using nb(2) eb by (simp add: stored_with_def)
  qed
  then have a: "stored_with gb l t = [nb]" using sa nb(1) by simp
  have b: "nid nb = nid na" using nb(1) by (simp add: on_match_def)
  have c: "get_prop (nprops na) ''confidence'' = PNum ca"
    using on_create_confidence [OF ka(2)] na(1) ea by (simp add: confidence_param_def)
  have d: "get_prop (nprops nb) ''confidence'' = PNum (max ca cb)"
    using on_match_confidence [OF kb(2), of tb na] nb(1) c eb
    by (auto simp: confidence_param_def merged_confidence_def max_def)
  from a b c d show ?thesis by simp
qed

text \<open>The theorem at two upserts of Apple, confidence 0.85 and then 0.9.\<close>

theorem upsert_twice_one_entity_witness:
  "\<exists>ga na gb nb.
     createEntityWithMerge empty_graph (candidate ''Apple'' ''COMPANY'' 0.85 [] [(''context'', PStr ''a'')]) 1 = Inr (ga, na)
     \<and> createEntityWithMerge ga (candidate ''Apple'' ''COMPANY'' 0.9 [] [(''context'', PStr ''b'')]) 2 = Inr (gb, nb)
     \<and> stored_with gb ''Apple'' ''COMPANY'' = [nb] \<and> nid nb = nid na
     \<and> get_prop (nprops na) ''confidence'' = PNum 0.85
     \<and> get_prop (nprops nb) ''confidence'' = PNum 0.9"
proof -
  let ?ea = "candidate ''Apple'' ''COMPANY'' 0.85 [] [(''context'', PStr ''a'')]"
  let ?eb = "candidate ''Apple'' ''COMPANY'' 0.9 [] [(''context'', PStr ''b'')]"
  let ?ra = "createEntityWithMerge empty_graph ?ea 1"
  let ?rb = "createEntityWithMerge (fst (projr ?ra)) ?eb 2"
  have "\<not> isl ?ra" by code_simp
  then have ua: "?ra = Inr (fst (projr ?ra), snd (projr ?ra))" by (rule Inr_projr)
  have "\<not> isl ?rb" by code_simp
  then have ub: "?rb = Inr (fst (projr ?rb), snd (projr ?rb))" by (rule Inr_projr)
  have fresh: "stored_with empty_graph ''Apple'' ''COMPANY'' = []" by code_simp
  have "stored_with (fst (projr ?rb)) ''Apple'' ''COMPANY'' = [snd (projr ?rb)]
        \<and> nid (snd (projr ?rb)) = nid (snd (projr ?ra))
        \<and> get_prop (nprops (snd (projr ?ra))) ''confidence'' = PNum 0.85
        \<and> get_prop (nprops (snd (projr ?rb))) ''confidence'' = PNum (max 0.85 0.9)"
    by (rule upsert_twice_one_entity [OF fresh _ _ _ _ _ _ _ _ _ _ _ _ ua ub]) (simp_all add: candidate_def)
  then show ?thesis using ua ub by (intro exI [of _ "fst (projr ?ra)"] exI [of _ "snd (projr ?ra)"] exI [of _ "fst (projr ?rb)"] exI [of _ "snd (projr ?rb)"]) simp
qed

text \<open>
  The claim as stated fails on two kinds of candidate. A confidence of zero is replaced by
  0.8 before it is compared, so a stored 0.5 becomes 0.8; and a property bag with a
  \<open>confidence\<close> key is written after the comparison, so a stored 0.9 becomes 0.1.
\<close>

theorem upsert_confidence_counterexample:
  "map (\<lambda>n. get_prop (nprops n) ''confidence'')
     (snd (snd (process_entities empty_graph 1
        [entity ''Apple'' ''COMPANY'' 0.5 [] [], entity ''Apple'' ''COMPANY'' 0 [] []] [])))
     = [PNum 0.5, PNum 0.8]
   \<and> max (0.5 :: real) 0 \<noteq> 0.8
   \<and> map (\<lambda>n. get_prop (nprops n) ''confidence'')
     (snd (snd (process_entities empty_graph 1
        [entity ''Apple'' ''COMPANY'' 0.9 [] [],
         entity ''Apple'' ''COMPANY'' 0.5 [] [(''confidence'', PNum 0.1)]] [])))
     = [PNum 0.9, PNum 0.1]
   \<and> max (0.9 :: real) 0.5 \<noteq> 0.1"
  by code_simp

text \<open>
  C7. On a merge conflict, for the stored entity \<open>n\<close> that the upsert returns as \<open>n'\<close>:
  when the incoming property bag has no key \<open>aliases\<close>, the stored aliases become the
  union of the stored and the incoming ones; every key of the incoming bag takes the
  incoming value; every other key, apart from the three the upsert maintains itself
  (\<open>confidence\<close>, \<open>aliases\<close>, \<open>updated_at\<close>), keeps the stored value.
\<close>

theorem merge_conflict_aliases_and_properties:
  assumes s: "stored_with g (ne_label e) (ne_type e) = n # ns"
    and u: "createEntityWithMerge g e now = Inr (g', n')"
  shows "n' \<in> set (gnodes g') \<and> nid n' = nid n
     \<and> (''aliases'' \<notin> fst ` set (ne_properties e) \<longrightarrow>
          alias_values (get_prop (nprops n') ''aliases'')
          = alias_values (get_prop (nprops n) ''aliases'') \<union> PStr ` set (aliases_param (ne_aliases e)))
     \<and> (\<forall>k. k \<in> fst ` set (ne_properties e) \<longrightarrow> get_prop (nprops n') k = get_prop (ne_properties e) k)
     \<and> (\<forall>k. k \<notin> fst ` set (ne_properties e) \<and> k \<notin> {''confidence'', ''aliases'', ''updated_at''} \<longrightarrow>
            get_prop (nprops n') k = get_prop (nprops n) k)"
proof -
  note r = upsert_existing [OF s u]
  have "n \<in> set (stored_with g (ne_label e) (ne_type e))" using s by simp
  then have mem: "n \<in> set (gnodes g)" and ex: "exact_match (ne_label e) (ne_type e) n"
    by (auto simp: stored_with_def)
  have a: "n' \<in> set (gnodes g')"
    using mem ex r by (force simp: image_iff)
  have b: "nid n' = nid n" using r(1) by (simp add: on_match_def)
  have c: "''aliases'' \<notin> fst ` set (ne_properties e) \<longrightarrow>
          alias_values (get_prop (nprops n') ''aliases'')
          = alias_values (get_prop (nprops n) ''aliases'') \<union> PStr ` set (aliases_param (ne_aliases e))"
    using r(1) by (simp add: on_match_def get_add_props get_set_prop alias_values_merged)
  have d: "\<forall>k. k \<in> fst ` set (ne_properties e) \<longrightarrow> get_prop (nprops n') k = get_prop (ne_properties e) k"
    using r(1) by (simp add: on_match_def get_add_props)
  have e: "\<forall>k. k \<notin> fst ` set (ne_properties e) \<and> k \<notin> {''confidence'', ''aliases'', ''updated_at''} \<longrightarrow>
            get_prop (nprops n') k = get_prop (nprops n) k"
    using r(1) by (simp add: on_match_def get_add_props get_set_prop)
  from a b c d e show ?thesis by blast
qed

text \<open>The theorem at an upsert of Apple with alias AAPL onto a stored Apple with alias Apple Inc.\<close>

theorem merge_conflict_aliases_and_properties_witness:
  "\<exists>n g' n'.
     stored_with stored_apple ''Apple'' ''COMPANY'' = [n]
     \<and> createEntityWithMerge stored_apple (candidate ''Apple'' ''COMPANY'' 0.9 [''AAPL''] [(''context'', PStr ''b'')]) 2
         = Inr (g', n')
     \<and> n' \<in> set (gnodes g') \<and> nid n' = nid n
     \<and> alias_values (get_prop (nprops n') ''aliases'') = {PStr ''Apple Inc'', PStr ''AAPL''}
     \<and> get_prop (nprops n') ''context'' = PStr ''b''
     \<and> get_prop (nprops n') ''source'' = PStr ''doc1''"
proof -
  let ?e = "candidate ''Apple'' ''COMPANY'' 0.9 [''AAPL''] [(''context'', PStr ''b'')]"
  let ?n = "hd (gnodes stored_apple)"
  let ?r = "createEntityWithMerge stored_apple ?e 2"
  have s: "stored_with stored_apple (ne_label ?e) (ne_type ?e) = ?n # []" by code_simp
  have "\<not> isl ?r" by code_simp
  then have u: "?r = Inr (fst (projr ?r), snd (projr ?r))" by (rule Inr_projr)
  note t = merge_conflict_aliases_and_properties [OF s u]
  have k: "''aliases'' \<notin> fst ` set (ne_properties ?e)" "''context'' \<in> fst ` set (ne_properties ?e)"
    "''source'' \<notin> fst ` set (ne_properties ?e) \<and> ''source'' \<notin> {''confidence'', ''aliases'', ''updated_at''}"
    by (simp_all add: candidate_def)
  have a: "alias_values (get_prop (nprops ?n) ''aliases'') \<union> PStr ` set (aliases_param (ne_aliases ?e))
           = {PStr ''Apple Inc'', PStr ''AAPL''}"
    by (auto simp: stored_apple_def candidate_def get_prop_def alias_values_def aliases_param_def)
  have b: "get_prop (ne_properties ?e) ''context'' = PStr ''b''" "get_prop (nprops ?n) ''source'' = PStr ''doc1''"
    by (simp_all add: stored_apple_def candidate_def get_prop_def)
  have s': "stored_with stored_apple ''Apple'' ''COMPANY'' = [?n]" using s by (simp add: candidate_def)
  show ?thesis
    using t k a b s' u
    by (intro exI [of _ ?n] exI [of _ "fst (projr ?r)"] exI [of _ "snd (projr ?r)"]) (simp add: candidate_def)
qed

text \<open>
  With an \<open>aliases\<close> key in the incoming property bag the stored aliases are that value,
  not the union.
\<close>

theorem merge_conflict_aliases_counterexample:
  "map (\<lambda>n. alias_values (get_prop (nprops n) ''aliases''))
     (snd (snd (process_entities empty_graph 1
        [entity ''Apple'' ''COMPANY'' 0.9 [''Apple Inc''] [],
         entity ''Apple'' ''COMPANY'' 0.9 [''AAPL''] [(''aliases'', PList [PStr ''x''])]] [])))
     = [{PStr ''Apple Inc''}, {PStr ''x''}]
   \<and> {PStr ''x''} \<noteq> {PStr ''Apple Inc''} \<union> {PStr ''AAPL''}"
  by code_simp

section \<open>Relationship reconciliation\<close>






text \<open>
  Where both endpoints resolve to entities that carry exactly the labels of the request
  and the type is a plain identifier, a request that returned an edge returns an edge
  again and leaves the graph as it is.
\<close>

lemma new_edges_contains:
  "(a, b) \<in> set rows \<Longrightarrow>
   \<exists>e \<in> set (new_edges i t VarB ps rows). esrc e = nid a \<and> etgt e = nid b \<and> etype e = t"
  by (induction i t VarB ps rows rule: new_edges.induct) auto

lemma find_Some_mem: "find P xs = Some x \<Longrightarrow> x \<in> set xs \<and> P x"
  by (induction xs) (auto split: if_splits)

lemma second_call_creates_nothing:
  assumes s: "findEntityByLabelAndType g sl st = Some s" and es: "exact_match sl st s"
    and t: "findEntityByLabelAndType g tl' tt = Some t" and et: "exact_match tl' tt t"
    and id: "cypher_ident rt"
    and c: "createRelationshipWithValidation g sl tl' st tt rt ps now = (g1, Some r)"
  shows "\<exists>r'. createRelationshipWithValidation g1 sl tl' st tt rt ps' now' = (g1, Some r')"
proof (cases "findRelationship g (nid s) (nid t) rt")
  case (Some r0)
  with c s t have "g1 = g" by (simp add: createRelationshipWithValidation_def)
  then show ?thesis using existing_edge_returned [OF s t Some] by simp
next
  case None
  let ?rows = "create_rows g sl tl' st tt"
  let ?new = "new_edges (fresh_id (map eid (gedges g))) rt VarB (new_edge_props ps now) ?rows"
  from c s t None id have n: "gnodes g1 = gnodes g" and e: "gedges g1 = gedges g @ ?new"
    by (auto simp: createRelationshipWithValidation_def read_type_ident split: if_splits list.splits)
  have sm: "s \<in> set (gnodes g)" "t \<in> set (gnodes g)"
    using s t by (auto simp: findEntityByLabelAndType_def split: if_splits dest: find_Some_mem)
  then have "(s, t) \<in> set ?rows"
    using es et by (auto simp: create_rows_def)
  from new_edges_contains [OF this] obtain e0 where
    "e0 \<in> set ?new" "esrc e0 = nid s" "etgt e0 = nid t" "etype e0 = rt" by blast
  then have "find (\<lambda>e. etype e = rt \<and> esrc e = nid s \<and> etgt e = nid t) (gedges g1) \<noteq> None"
    using e by (auto simp: find_None_iff)
  then obtain r' where r': "findRelationship g1 (nid s) (nid t) rt = Some r'"
    using id by (auto simp: findRelationship_ident)
  have "findEntityByLabelAndType g1 sl st = Some s" "findEntityByLabelAndType g1 tl' tt = Some t"
    using s t n by (auto simp: findEntityByLabelAndType_def split: if_splits)
  from existing_edge_returned [OF this r'] show ?thesis by blast
qed

text \<open>
  C2. Three upserts store \<open>apple\<close> and \<open>Apple\<close> of type FOOD and Tim of type PERSON. The
  request from Tim to Apple resolves its target to the older entity \<open>apple\<close>, looks for an
  edge to that one, and creates the edge to \<open>Apple\<close>; the same request again does the
  same, and the store holds two EATS edges from Tim to Apple. When the scan of the store
  lists \<open>Apple\<close> first, the request from Tim to \<open>apple\<close> does this.
\<close>

theorem duplicate_edge_after_two_calls:
  "map (\<lambda>e. (esrc e, etype e, etgt e))
     (gedges
        (fst (createRelationshipWithValidation
           (fst (createRelationshipWithValidation
              (fst (process_entities empty_graph 1
                 [entity ''apple'' ''FOOD'' 0.9 [] [], entity ''Apple'' ''FOOD'' 0.9 [] [],
                  entity ''Tim'' ''PERSON'' 0.9 [] []] []))
              ''Tim'' ''Apple'' ''PERSON'' ''FOOD'' ''EATS'' [] 4))
           ''Tim'' ''Apple'' ''PERSON'' ''FOOD'' ''EATS'' [] 5)))
   = [(3, ''EATS'', 2), (3, ''EATS'', 2)]
   \<and> map (\<lambda>e. (esrc e, etype e, etgt e))
     (gedges
        (fst (createRelationshipWithValidation
           (fst (createRelationshipWithValidation twin_graph
              ''Tim'' ''apple'' ''PERSON'' ''FOOD'' ''EATS'' [] 4))
           ''Tim'' ''apple'' ''PERSON'' ''FOOD'' ''EATS'' [] 5)))
   = [(3, ''EATS'', 1), (3, ''EATS'', 1)]"
  by code_simp

section \<open>Filtering\<close>

lemma set_map_filter_keep:
  "set (List.map_filter (\<lambda>item. if P item then item else None) xs) = {y. Some y \<in> set xs \<and> P (Some y)}"
  by (induction xs) (auto split: option.splits)

lemma keep_relationship_not_self:
  "keep_relationship labels (Some r) \<Longrightarrow> toLowerCase (r_source r) \<noteq> toLowerCase (r_target r)"
  by (simp add: keep_relationship_def split: if_splits)

lemma gemini_relationships_not_self:
  assumes "gemini_filterRelationships raw_rels raw_ents = Some kept" and "r \<in> set kept"
  shows "toLowerCase (r_source r) \<noteq> toLowerCase (r_target r)"
  using assms
  by (auto simp: gemini_filterRelationships_def set_map_filter_keep keep_relationship_not_self
      split: option.splits)

lemma local_relationships_not_self:
  "r \<in> set (local_filterRelationships rels ents) \<Longrightarrow> toLowerCase (r_source r) \<noteq> toLowerCase (r_target r)"
  by (simp add: local_filterRelationships_def)

lemma local_result_not_self:
  assumes "local_extractEntitiesAndRelationships text = Some l" and "r \<in> set (relationships l)"
  shows "toLowerCase (r_source r) \<noteq> toLowerCase (r_target r)"
  using assms
  by (auto simp: local_extractEntitiesAndRelationships_def local_relationships_not_self split: option.splits)

lemma fallback_not_self:
  assumes "local_fallback text = Some res" and "r \<in> set (relationships res)"
  shows "toLowerCase (r_source r) \<noteq> toLowerCase (r_target r)"
  using assms local_result_not_self
  by (auto simp: local_fallback_def enhanceLocalResults_def split: option.splits)

lemma gemini_result_not_self:
  assumes "gemini_extractEntitiesAndRelationships raw = Some res" and "r \<in> set (relationships res)"
  shows "toLowerCase (r_source r) \<noteq> toLowerCase (r_target r)"
  using assms gemini_relationships_not_self
  by (auto simp: gemini_extractEntitiesAndRelationships_def split: option.splits)

lemma hybrid_not_self:
  assumes "hybrid_extractEntitiesAndRelationships env text = Some res" and "r \<in> set (relationships res)"
  shows "toLowerCase (r_source r) \<noteq> toLowerCase (r_target r)"
  using assms fallback_not_self gemini_result_not_self
  by (auto simp: hybrid_extractEntitiesAndRelationships_def split: if_splits option.splits)

text \<open>
  Where the relationship types are plain identifiers, the edges a request writes link
  entities with different labels: each call of the relationship loop names two processed
  entities whose labels agree, after lower-casing, with the source and the target of a
  relationship of the result, and creates edges only between entities that carry these
  labels.
\<close>

lemma new_edges_rows:
  "e \<in> set (new_edges i t VarB ps rows) \<Longrightarrow> \<exists>a b. (a, b) \<in> set rows \<and> esrc e = nid a \<and> etgt e = nid b"
  by (induction i t VarB ps rows rule: new_edges.induct) fastforce+

lemma create_rows_exact:
  "(a, b) \<in> set (create_rows g sl tl' st tt) \<Longrightarrow>
   a \<in> set (gnodes g) \<and> exact_match sl st a \<and> b \<in> set (gnodes g) \<and> exact_match tl' tt b"
  by (auto simp: create_rows_def)

lemma created_edge_links:
  assumes "toLowerCase sl \<noteq> toLowerCase tl'"
    and "e \<in> set (new_edges i t VarB ps (create_rows g sl tl' st tt))"
    and "gnodes g' = gnodes g"
  shows "links_distinct_labels g' e"
proof -
  from new_edges_rows [OF assms(2)] obtain a b where
    ab: "(a, b) \<in> set (create_rows g sl tl' st tt)" "esrc e = nid a" "etgt e = nid b" by blast
  from create_rows_exact [OF ab(1)] have
    "a \<in> set (gnodes g)" "get_prop (nprops a) ''label'' = PStr sl"
    "b \<in> set (gnodes g)" "get_prop (nprops b) ''label'' = PStr tl'"
    by (simp_all add: exact_match_def)
  with ab(2,3) assms(1,3) show ?thesis
    unfolding links_distinct_labels_def list_ex_iff by force
qed

lemma createRelationship_nodes:
  "createRelationshipWithValidation g sl tl' st tt rt ps now = (g', r) \<Longrightarrow> gnodes g' = gnodes g"
  by (auto simp: createRelationshipWithValidation_def
      split: option.splits spliced.splits if_splits list.splits)

lemma createRelationship_edges:
  assumes "toLowerCase sl \<noteq> toLowerCase tl'" and "cypher_ident rt"
    and "createRelationshipWithValidation g sl tl' st tt rt ps now = (g', r)"
  shows "\<forall>e \<in> set (gedges g'). e \<in> set (gedges g) \<or> links_distinct_labels g' e"
proof
  fix e assume e: "e \<in> set (gedges g')"
  note n = createRelationship_nodes [OF assms(3)]
  from assms(2,3) consider "gedges g' = gedges g"
    | "gedges g' = gedges g @ new_edges (fresh_id (map eid (gedges g))) rt VarB (new_edge_props ps now)
                                  (create_rows g sl tl' st tt)"
    by (auto simp: createRelationshipWithValidation_def read_type_ident
        split: option.splits if_splits list.splits)
  then show "e \<in> set (gedges g) \<or> links_distinct_labels g' e"
  proof cases
    case 1
    with e show ?thesis by simp
  next
    case 2
    with e created_edge_links [OF assms(1) _ n] show ?thesis by auto
  qed
qed

lemma find_processed_Found:
  "find_processed name pes = Found (s, t) \<Longrightarrow> toLowerCase s = toLowerCase name"
  by (induction pes) (auto split: pval.splits if_splits)

lemma links_same_nodes: "gnodes g' = gnodes g \<Longrightarrow> links_distinct_labels g' e = links_distinct_labels g e"
  by (simp add: links_distinct_labels_def)

lemma process_relationships_edges:
  assumes "process_relationships g now pes rels acc = (g', now', acc')"
    and "\<forall>r \<in> set rels. toLowerCase (r_source r) \<noteq> toLowerCase (r_target r)"
    and "\<forall>r \<in> set rels. cypher_ident (r_type r)"
  shows "gnodes g' = gnodes g \<and> (\<forall>e \<in> set (gedges g'). e \<in> set (gedges g) \<or> links_distinct_labels g' e)"
  using assms
proof (induction rels arbitrary: g now acc)
  case Nil
  then show ?case by simp
next
  case (Cons rel rels)
  have ns: "toLowerCase (r_source rel) \<noteq> toLowerCase (r_target rel)"
    and rest: "\<forall>r \<in> set rels. toLowerCase (r_source r) \<noteq> toLowerCase (r_target r)"
    using Cons.prems(2) by simp_all
  have ty: "cypher_ident (r_type rel)" and tys: "\<forall>r \<in> set rels. cypher_ident (r_type r)"
    using Cons.prems(3) by simp_all
  show ?case
  proof (cases "find_processed (r_source rel) pes")
    case (Found src)
    obtain sl st where src: "src = (sl, st)" by (cases src)
    show ?thesis
    proof (cases "find_processed (r_target rel) pes")
      case F2: (Found tgt)
      obtain tl' tt where tgt: "tgt = (tl', tt)" by (cases tgt)
      let ?ps = "AList.update ''context'' (PStr (r_context rel))
                   (AList.update ''confidence'' (PNum (r_confidence rel)) (r_properties rel))"
      obtain g1 r1 where c: "createRelationshipWithValidation g sl tl' st tt (r_type rel) ?ps now = (g1, r1)"
        by (cases "createRelationshipWithValidation g sl tl' st tt (r_type rel) ?ps now")
      have d: "toLowerCase sl \<noteq> toLowerCase tl'"
        using find_processed_Found Found F2 src tgt ns by metis
      note cn = createRelationship_nodes [OF c]
      note ce = createRelationship_edges [OF d ty c]
      from Cons.prems(1) Found F2 src tgt c obtain acc1 where
        "process_relationships g1 (Suc now) pes rels acc1 = (g', now', acc')"
        by (cases r1) auto
      from Cons.IH [OF this rest tys] have
        ih: "gnodes g' = gnodes g1" "\<forall>e \<in> set (gedges g'). e \<in> set (gedges g1) \<or> links_distinct_labels g' e"
        by simp_all
      have "links_distinct_labels g' = links_distinct_labels g1"
        using links_same_nodes [OF ih(1)] by auto
      with ih cn ce show ?thesis by auto
    next
      case Missing
      with Cons.prems(1) Found src have "process_relationships g now pes rels acc = (g', now', acc')" by simp
      from Cons.IH [OF this rest tys] show ?thesis .
    next
      case Raised
      with Cons.prems(1) Found src have "process_relationships g now pes rels acc = (g', now', acc')" by simp
      from Cons.IH [OF this rest tys] show ?thesis .
    qed
  next
    case Missing
    with Cons.prems(1) have "process_relationships g now pes rels acc = (g', now', acc')" by simp
    from Cons.IH [OF this rest tys] show ?thesis .
  next
    case Raised
    with Cons.prems(1) have "process_relationships g now pes rels acc = (g', now', acc')" by simp
    from Cons.IH [OF this rest tys] show ?thesis .
  qed
qed

lemma process_entities_edges:
  "process_entities g now ents acc = (g', now', acc') \<Longrightarrow> gedges g' = gedges g"
proof (induction ents arbitrary: g now acc)
  case Nil
  then show ?case by simp
next
  case (Cons e es)
  show ?case
  proof (cases "createEntityWithMerge g (as_new e) now")
    case (Inl err)
    with Cons show ?thesis by simp
  next
    case (Inr p)
    obtain g1 n1 where p: "p = (g1, n1)" by (cases p)
    have "gedges g1 = gedges g"
      using Inr p by (auto simp: createEntityWithMerge_def Let_def split: if_splits list.splits)
    moreover have "gedges g' = gedges g1" using Cons Inr p by simp
    ultimately show ?thesis by simp
  qed
qed

lemma POST_edges:
  assumes res: "hybrid_extractEntitiesAndRelationships env body = Some res"
    and ty: "\<forall>r \<in> set (relationships res). cypher_ident (r_type r)"
  shows "\<forall>e \<in> set (gedges (fst (POST env g now \<lparr>req_text = Some body, req_clearBefore = cb\<rparr>))).
           e \<in> set (gedges g)
           \<or> links_distinct_labels (fst (POST env g now \<lparr>req_text = Some body, req_clearBefore = cb\<rparr>)) e"
proof (cases "body = []")
  case True
  then show ?thesis by (simp add: POST_def)
next
  case False
  let ?request = "\<lparr>req_text = Some body, req_clearBefore = cb\<rparr>"
  let ?g0 = "if cb = Some False then g else clearAllData g"
  have g0: "set (gedges ?g0) \<subseteq> set (gedges g)" by (simp add: clearAllData_def)
  obtain g1 now1 pes where pe: "process_entities ?g0 now (entities res) [] = (g1, now1, pes)"
    by (cases "process_entities ?g0 now (entities res) []") auto
  obtain g2 now2 prs where pr: "process_relationships g1 now1 pes (relationships res) [] = (g2, now2, prs)"
    by (cases "process_relationships g1 now1 pes (relationships res) []") auto
  have f: "fst (POST env g now ?request) = g2"
    using False res pe pr by (simp add: POST_def Let_def)
  have e1: "gedges g1 = gedges ?g0" using process_entities_edges [OF pe] .
  have "\<forall>r \<in> set (relationships res). toLowerCase (r_source r) \<noteq> toLowerCase (r_target r)"
    using hybrid_not_self [OF res] by blast
  from process_relationships_edges [OF pr this ty]
  have "\<forall>e \<in> set (gedges g2). e \<in> set (gedges g1) \<or> links_distinct_labels g2 e" by simp
  with e1 g0 f show ?thesis by auto
qed

text \<open>
  The rule-based extractor gives a relationship the type of the pattern that found
  it, and these are plain identifiers: without a configured key no request adds an edge
  from an entity to itself.
\<close>

lemma collect_mem:
  "collect f xs = Some zs \<Longrightarrow> z \<in> set zs \<Longrightarrow> \<exists>x \<in> set xs. \<exists>ys. f x = Some ys \<and> z \<in> set ys"
  by (induction xs arbitrary: zs) (auto split: option.splits)

lemma relationship_of_match_type:
  "relationship_of_match labels t c m = Some rs \<Longrightarrow> r \<in> set rs \<Longrightarrow> r_type r = t"
  by (auto simp: relationship_of_match_def Let_def split: option.splits if_splits)

lemma pattern_relationships_type:
  assumes "pattern_relationships body labels pat = Some rs" and "r \<in> set rs"
  shows "r_type r = fst (snd pat)"
proof -
  from assms(1) obtain ms where
    "collect (relationship_of_match labels (fst (snd pat)) (snd (snd pat))) ms = Some rs"
    by (auto simp: pattern_relationships_def split: option.splits)
  from collect_mem [OF this assms(2)] show ?thesis using relationship_of_match_type by blast
qed

lemma RELATIONSHIP_PATTERNS_types:
  "list_all (\<lambda>pat. cypher_ident (fst (snd pat))) RELATIONSHIP_PATTERNS"
  by code_simp

lemma extractRelationships_type:
  assumes "extractRelationships body ents = Some rels" and "r \<in> set rels"
  shows "cypher_ident (r_type r)"
proof -
  from collect_mem [OF assms(1) [unfolded extractRelationships_def] assms(2)]
  obtain pat rs where "pat \<in> set RELATIONSHIP_PATTERNS"
    "pattern_relationships body (map (\<lambda>e. toLowerCase (e_label e)) ents) pat = Some rs" "r \<in> set rs"
    by blast
  then show ?thesis
    using pattern_relationships_type RELATIONSHIP_PATTERNS_types by (auto simp: list_all_iff)
qed

lemma fallback_types:
  assumes "local_fallback body = Some res" and "r \<in> set (relationships res)"
  shows "cypher_ident (r_type r)"
  using assms extractRelationships_type
  by (auto simp: local_fallback_def local_extractEntitiesAndRelationships_def enhanceLocalResults_def
      local_filterRelationships_def split: option.splits)

lemma local_path_edges:
  assumes "\<not> key_configured env"
  shows "\<forall>e \<in> set (gedges (fst (POST env g now \<lparr>req_text = Some body, req_clearBefore = cb\<rparr>))).
           e \<in> set (gedges g)
           \<or> links_distinct_labels (fst (POST env g now \<lparr>req_text = Some body, req_clearBefore = cb\<rparr>)) e"
proof -
  obtain res where res: "hybrid_extractEntitiesAndRelationships env body = Some res"
    using hybrid_total by blast
  with assms have "local_fallback body = Some res"
    by (simp add: hybrid_extractEntitiesAndRelationships_def)
  then have "\<forall>r \<in> set (relationships res). cypher_ident (r_type r)"
    using fallback_types by blast
  from POST_edges [OF res this] show ?thesis .
qed

text \<open>
  No relationship whose source and target agree after lower-casing survives either filter,
  and for every environment and every text the coordinator returns a result none of whose
  relationships is such a self-loop.
\<close>

lemma filters_drop_self_relationships:
  "(\<forall>r \<in> set (local_filterRelationships rels ents). toLowerCase (r_source r) \<noteq> toLowerCase (r_target r))
   \<and> (\<forall>kept. gemini_filterRelationships raw_rels raw_ents = Some kept \<longrightarrow>
         (\<forall>r \<in> set kept. toLowerCase (r_source r) \<noteq> toLowerCase (r_target r)))
   \<and> (\<exists>res. hybrid_extractEntitiesAndRelationships env body = Some res
         \<and> (\<forall>r \<in> set (relationships res). toLowerCase (r_source r) \<noteq> toLowerCase (r_target r)))"
  using hybrid_total [of env body] local_relationships_not_self gemini_relationships_not_self hybrid_not_self
  by blast

text \<open>
  C4. The filters compare the source and the target of a relationship and never look at
  its type, which the store operation splices into the text of the creation query. A
  reply with the entities Elon and Tesla and a relationship from Elon to Tesla whose type
  is the text \<open>X]->(a) //\<close> passes the filter, for the source and the target differ. The
  creation query then reads \<open>CREATE (a)-[r:X]->(a)\<close>, and the request persists an edge from
  the entity Elon to itself.
\<close>

theorem self_loop_persisted:
  "map_option relationship_view (gemini_extractEntitiesAndRelationships redirect_reply)
     = Some [(''Elon'', ''X]->(a) //'', ''Tesla'')]
   \<and> toLowerCase ''Elon'' \<noteq> toLowerCase ''Tesla''
   \<and> map (\<lambda>n. (nid n, get_prop (nprops n) ''label''))
        (gnodes (fst (POST (with_key redirect_reply) empty_graph 0
           \<lparr>req_text = Some ''Elon owns Tesla.'', req_clearBefore = None\<rparr>)))
     = [(1, PStr ''Elon''), (2, PStr ''Tesla'')]
   \<and> map (\<lambda>e. (esrc e, etype e, etgt e))
        (gedges (fst (POST (with_key redirect_reply) empty_graph 0
           \<lparr>req_text = Some ''Elon owns Tesla.'', req_clearBefore = None\<rparr>)))
     = [(1, ''X'', 1)]"
  by code_simp

text \<open>
  C8. On the rule-based path every surviving entity has a normalized label longer than one
  character. On the model-backed path every surviving entity has a non-empty normalized
  label, and its label as given is not a single letter.
\<close>

theorem surviving_entity_labels:
  "(\<exists>res. local_extractEntitiesAndRelationships text = Some res
      \<and> (\<forall>e \<in> set (entities res). 1 < length (trim (toLowerCase (e_label e)))))
   \<and> (\<forall>e \<in> set (gemini_filterEntities raw).
        0 < length (trim (toLowerCase (e_label e)))
        \<and> (\<forall>c. e_label e = [c] \<longrightarrow> \<not> is_upper c \<and> \<not> is_lower c))"
  using local_total [of "text"] local_entities_kept gemini_entities_kept by blast

text \<open>The theorem at a short text and at a reply with a one-letter and an empty label.\<close>

theorem surviving_entity_labels_witness:
  "(\<exists>res. local_extractEntitiesAndRelationships ''John likes Mary.'' = Some res
      \<and> map e_label (entities res) = [''John'', ''Mary'']
      \<and> list_all (\<lambda>e. 1 < length (trim (toLowerCase (e_label e)))) (entities res))
   \<and> map e_label (gemini_filterEntities
        [Some (entity ''Apple'' ''COMPANY'' 0.95 [] []), Some (entity ''x'' ''CONCEPT'' 0.9 [] []),
         Some (entity [] ''CONCEPT'' 0.9 [] []), None]) = [''Apple'']
   \<and> list_all (\<lambda>e. 0 < length (trim (toLowerCase (e_label e))))
       (gemini_filterEntities
        [Some (entity ''Apple'' ''COMPANY'' 0.95 [] []), Some (entity ''x'' ''CONCEPT'' 0.9 [] []),
         Some (entity [] ''CONCEPT'' 0.9 [] []), None])"
proof -
  let ?raw = "[Some (entity ''Apple'' ''COMPANY'' 0.95 [] []), Some (entity ''x'' ''CONCEPT'' 0.9 [] []),
         Some (entity [] ''CONCEPT'' 0.9 [] []), None]"
  note t = surviving_entity_labels [of "''John likes Mary.''" ?raw]
  from t obtain res where r: "local_extractEntitiesAndRelationships ''John likes Mary.'' = Some res"
    "\<forall>e \<in> set (entities res). 1 < length (trim (toLowerCase (e_label e)))"
    by blast
  from r(1) have a: "map e_label (entities res) = [''John'', ''Mary'']" by (auto simp: local_john)
  have b: "map e_label (gemini_filterEntities ?raw) = [''Apple'']" by code_simp
  from t have c: "list_all (\<lambda>e. 0 < length (trim (toLowerCase (e_label e)))) (gemini_filterEntities ?raw)"
    by (simp add: list_all_iff)
  from r a b c show ?thesis by (auto simp: list_all_iff)
qed

text \<open>
  A one-character label that is neither a letter nor a digit survives the model-backed
  filter.
\<close>

theorem one_character_label_counterexample:
  "map_option (\<lambda>res. map e_label (entities res))
     (hybrid_extractEntitiesAndRelationships
        (with_key \<lparr>raw_entities = [Some (entity ''&'' ''CONCEPT'' 0.9 [] [])], raw_relationships = []\<rparr>)
        ''R & D'')
   = Some [''&'']
   \<and> length (trim (toLowerCase ''&'')) = 1"
  by code_simp

section \<open>The coordinator\<close>

lemma stamped_enhance: "stamped text ps (enhance_properties text ps)"
  by (simp add: stamped_def enhance_properties_def update_conv')

lemma stamped_copy_enhance: "stamped_copy text l (enhanceLocalResults l text)"
  by (simp add: stamped_copy_def enhanceLocalResults_def list_all2_map2 list_all2_same stamped_enhance)

lemma hybrid_external:
  "external_used env text \<Longrightarrow>
   hybrid_extractEntitiesAndRelationships env text
   = gemini_extractEntitiesAndRelationships (gemini_reply env text)"
  by (auto simp: external_used_def hybrid_extractEntitiesAndRelationships_def split: option.splits)

lemma hybrid_local:
  "\<not> external_used env text \<Longrightarrow>
   hybrid_extractEntitiesAndRelationships env text = local_fallback text"
  by (auto simp: external_used_def hybrid_extractEntitiesAndRelationships_def split: option.splits)

text \<open>
  C5. When the External strategy's result is used, the coordinator returns it as it is.
  Otherwise the Local strategy returns a result, and the coordinator returns that result
  with every item's property bag stamped; the two results are never merged.
\<close>

theorem coordinator_priority:
  "(external_used env text \<longrightarrow>
      hybrid_extractEntitiesAndRelationships env text
      = gemini_extractEntitiesAndRelationships (gemini_reply env text))
   \<and> (\<not> external_used env text \<longrightarrow>
        (\<exists>l res. local_extractEntitiesAndRelationships text = Some l
                 \<and> hybrid_extractEntitiesAndRelationships env text = Some res
                 \<and> stamped_copy text l res))"
proof -
  obtain l where l: "local_extractEntitiesAndRelationships text = Some l" using local_total by blast
  then have "local_fallback text = Some (enhanceLocalResults l text)" by (simp add: local_fallback_def)
  then show ?thesis using l hybrid_external hybrid_local stamped_copy_enhance by metis
qed

text \<open>The theorem with a configured key and a reply holding one entity, and without a key.\<close>

theorem coordinator_priority_witness:
  "external_used (with_key \<lparr>raw_entities = [Some (entity ''Apple'' ''COMPANY'' 0.95 [] [])], raw_relationships = []\<rparr>)
     ''Apple grows.''
   \<and> hybrid_extractEntitiesAndRelationships
        (with_key \<lparr>raw_entities = [Some (entity ''Apple'' ''COMPANY'' 0.95 [] [])], raw_relationships = []\<rparr>)
        ''Apple grows.''
      = Some \<lparr>entities = [entity ''Apple'' ''COMPANY'' 0.95 [] []], relationships = []\<rparr>
   \<and> \<not> external_used no_key ''John likes Mary.''
   \<and> (\<exists>l res. local_extractEntitiesAndRelationships ''John likes Mary.'' = Some l
          \<and> hybrid_extractEntitiesAndRelationships no_key ''John likes Mary.'' = Some res
          \<and> stamped_copy ''John likes Mary.'' l res \<and> entity_view l = [(''John'', ''PERSON''), (''Mary'', ''PERSON'')])"
proof -
  let ?env = "with_key \<lparr>raw_entities = [Some (entity ''Apple'' ''COMPANY'' 0.95 [] [])], raw_relationships = []\<rparr>"
  have g: "gemini_extractEntitiesAndRelationships (gemini_reply ?env ''Apple grows.'')
           = Some \<lparr>entities = [entity ''Apple'' ''COMPANY'' 0.95 [] []], relationships = []\<rparr>"
    by code_simp
  have a: "external_used ?env ''Apple grows.''"
    unfolding external_used_def g by (simp add: with_key_def key_configured_def)
  have b: "\<not> external_used no_key ''John likes Mary.''"
    by (simp add: external_used_def no_key_def key_configured_def)
  from coordinator_priority [of ?env "''Apple grows.''"] a g
  have c: "hybrid_extractEntitiesAndRelationships ?env ''Apple grows.''
           = Some \<lparr>entities = [entity ''Apple'' ''COMPANY'' 0.95 [] []], relationships = []\<rparr>"
    by simp
  from coordinator_priority [of no_key "''John likes Mary.''"] b
  obtain l res where d: "local_extractEntitiesAndRelationships ''John likes Mary.'' = Some l"
    "hybrid_extractEntitiesAndRelationships no_key ''John likes Mary.'' = Some res"
    "stamped_copy ''John likes Mary.'' l res"
    by blast
  from d(1) have "entity_view l = [(''John'', ''PERSON''), (''Mary'', ''PERSON'')]"
    by (auto simp: local_john entity_view_def)
  with a b c d show ?thesis by blast
qed

text \<open>Without a key the coordinator's result is not the Local strategy's result: the items are stamped.\<close>

theorem coordinator_result_counterexample:
  "hybrid_extractEntitiesAndRelationships no_key ''John likes Mary.''
   \<noteq> local_extractEntitiesAndRelationships ''John likes Mary.''"
  by (simp add: hybrid_extractEntitiesAndRelationships_def no_key_def key_configured_def local_fallback_def
      local_john enhanceLocalResults_def enhance_properties_def)

section \<open>The method tag of the response\<close>

lemma POST_method:
  assumes "hybrid_extractEntitiesAndRelationships env text = Some result" and "text \<noteq> []"
  shows "response_method (snd (POST env g now \<lparr>req_text = Some text, req_clearBefore = cb\<rparr>))
         = Some (if length (entities result) > 0 then ''gemini'' else ''local'')"
  using assms by (auto simp: POST_def response_method_def Let_def split: prod.splits)

text \<open>
  C6. Without a configured key the External strategy is never tried; the request for
  \<open>John likes Mary.\<close> is answered from the Local strategy, its two entities carry the
  marker \<open>local\<close>, and the response is tagged \<open>gemini\<close>. With a key and a reply of which
  the filters keep a relationship and no entity, the External strategy's result is used
  and the response is tagged \<open>local\<close>.
\<close>

theorem local_result_tagged_gemini:
  "\<not> key_configured no_key
   \<and> response_method (snd (POST no_key empty_graph 0
        \<lparr>req_text = Some ''John likes Mary.'', req_clearBefore = None\<rparr>)) = Some ''gemini''
   \<and> map_option (\<lambda>res. map (\<lambda>e. get_prop (e_properties e) ''processingMethod'') (entities res))
        (hybrid_extractEntitiesAndRelationships no_key ''John likes Mary.'')
      = Some [PStr ''local'', PStr ''local'']
   \<and> key_configured (with_key generic_reply)
   \<and> map_option (\<lambda>res. (entity_view res, relationship_view res))
        (gemini_extractEntitiesAndRelationships generic_reply)
      = Some ([], [(''The'', ''RELATES_TO'', ''This'')])
   \<and> hybrid_extractEntitiesAndRelationships (with_key generic_reply) ''The one and this one.''
      = gemini_extractEntitiesAndRelationships generic_reply
   \<and> response_method (snd (POST (with_key generic_reply) empty_graph 0
        \<lparr>req_text = Some ''The one and this one.'', req_clearBefore = None\<rparr>)) = Some ''local''"
proof -
  have h: "hybrid_extractEntitiesAndRelationships no_key ''John likes Mary.''
           = Some (enhanceLocalResults (the (local_extractEntitiesAndRelationships ''John likes Mary.'')) ''John likes Mary.'')"
    by (simp add: hybrid_extractEntitiesAndRelationships_def no_key_def key_configured_def local_fallback_def local_john)
  have a: "\<not> key_configured no_key" by (simp add: no_key_def key_configured_def)
  have b: "response_method (snd (POST no_key empty_graph 0
        \<lparr>req_text = Some ''John likes Mary.'', req_clearBefore = None\<rparr>)) = Some ''gemini''"
    by (simp add: POST_method [OF h] local_john enhanceLocalResults_def)
  have c: "map_option (\<lambda>res. map (\<lambda>e. get_prop (e_properties e) ''processingMethod'') (entities res))
        (hybrid_extractEntitiesAndRelationships no_key ''John likes Mary.'')
      = Some [PStr ''local'', PStr ''local'']"
    by (simp add: h local_john enhanceLocalResults_def enhance_properties_def get_prop_def)
  have d: "key_configured (with_key generic_reply)
   \<and> map_option (\<lambda>res. (entity_view res, relationship_view res))
        (gemini_extractEntitiesAndRelationships generic_reply)
      = Some ([], [(''The'', ''RELATES_TO'', ''This'')])
   \<and> hybrid_extractEntitiesAndRelationships (with_key generic_reply) ''The one and this one.''
      = gemini_extractEntitiesAndRelationships generic_reply
   \<and> response_method (snd (POST (with_key generic_reply) empty_graph 0
        \<lparr>req_text = Some ''The one and this one.'', req_clearBefore = None\<rparr>)) = Some ''local''"
    by code_simp
  from a b c d show ?thesis by simp
qed

section \<open>The sample sentence\<close>

text \<open>
  C9. On the sample text the rule-based extractor yields the entities Apple, Steve jobs,
  Elon musk and Tesla, all of type PERSON, and Steve, Jobs, Elon and Musk of type CONCEPT,
  in this order, and the one relationship (Musk, OWNS, Tesla). These are not the four
  entities Apple, Steve Jobs, Elon Musk and Tesla and the two relationships
  (Apple, FOUNDED_BY, Steve Jobs) and (Elon Musk, OWNS, Tesla) expected of it; without a
  configured key the coordinator returns this result.
\<close>

theorem sample_extraction:
  "map_option (\<lambda>res. (entity_view res, relationship_view res)) (local_extractEntitiesAndRelationships sample_text) =
     Some ([(''Apple'', ''PERSON''), (''Steve jobs'', ''PERSON''), (''Elon musk'', ''PERSON''),
            (''Tesla'', ''PERSON''), (''Steve'', ''CONCEPT''), (''Jobs'', ''CONCEPT''),
            (''Elon'', ''CONCEPT''), (''Musk'', ''CONCEPT'')],
           [(''Musk'', ''OWNS'', ''Tesla'')])
   \<and> map_option (\<lambda>res. (set (map fst (entity_view res)), set (relationship_view res)))
        (local_extractEntitiesAndRelationships sample_text)
      \<noteq> Some ({''Apple'', ''Steve Jobs'', ''Elon Musk'', ''Tesla''},
                {(''Apple'', ''FOUNDED_BY'', ''Steve Jobs''), (''Elon Musk'', ''OWNS'', ''Tesla'')})
   \<and> map_option (\<lambda>res. (entity_view res, relationship_view res))
        (hybrid_extractEntitiesAndRelationships no_key sample_text)
      = map_option (\<lambda>res. (entity_view res, relationship_view res))
        (local_extractEntitiesAndRelationships sample_text)"
proof -
  obtain res where r: "local_extractEntitiesAndRelationships sample_text = Some res"
    using local_total by blast
  with local_sample have v: "relationship_view res = [(''Musk'', ''OWNS'', ''Tesla'')]" by simp
  then have "set (relationship_view res)
             \<noteq> {(''Apple'', ''FOUNDED_BY'', ''Steve Jobs''), (''Elon Musk'', ''OWNS'', ''Tesla'')}"
    by auto
  with r have a: "map_option (\<lambda>res. (set (map fst (entity_view res)), set (relationship_view res)))
        (local_extractEntitiesAndRelationships sample_text)
      \<noteq> Some ({''Apple'', ''Steve Jobs'', ''Elon Musk'', ''Tesla''},
                {(''Apple'', ''FOUNDED_BY'', ''Steve Jobs''), (''Elon Musk'', ''OWNS'', ''Tesla'')})"
    by simp
  have "hybrid_extractEntitiesAndRelationships no_key sample_text = Some (enhanceLocalResults res sample_text)"
    using r by (simp add: hybrid_extractEntitiesAndRelationships_def no_key_def key_configured_def
        local_fallback_def)
  then have b: "map_option (\<lambda>res. (entity_view res, relationship_view res))
        (hybrid_extractEntitiesAndRelationships no_key sample_text)
      = map_option (\<lambda>res. (entity_view res, relationship_view res))
        (local_extractEntitiesAndRelationships sample_text)"
    using r by (simp add: enhanceLocalResults_def entity_view_def relationship_view_def comp_def)
  from local_sample a b show ?thesis by simp
qed

end
